theory Spec2Isabelle
  imports Complex_Main "HOL-Library.Word"
begin

unbundle bit_operations_syntax

section \<open>Build options and constants of \<^verbatim>\<open>lib/framebuffer.cc\<close>\<close>

text \<open>
  The preprocessor symbols that select code in \<^verbatim>\<open>framebuffer.cc\<close>. Every function
  that contains an \<^verbatim>\<open>#ifdef\<close> takes the build as its first argument.
  \<^verbatim>\<open>ONLY_SINGLE_CHAIN\<close> is what the two \<^verbatim>\<open>ADAFRUIT_RGBMATRIX_HAT\<close> symbols define.
\<close>

record build =
  ONLY_SINGLE_CHAIN :: bool
  RGB_SWAP_GREEN_BLUE :: bool
  ONLY_SINGLE_SUB_PANEL :: bool
  CM_5_CHAIN_SUPPORT :: bool
  INVERSE_RGB_DISPLAY_COLORS :: bool
  PI_REV1_RGB_PINOUT :: bool

text \<open>The build with no symbol defined.\<close>

definition default_build :: build where
  "default_build =
     \<lparr>ONLY_SINGLE_CHAIN = False, RGB_SWAP_GREEN_BLUE = False, ONLY_SINGLE_SUB_PANEL = False,
      CM_5_CHAIN_SUPPORT = False, INVERSE_RGB_DISPLAY_COLORS = False,
      PI_REV1_RGB_PINOUT = False\<rparr>"

definition kBitPlanes :: nat where
  "kBitPlanes = 11"

definition kBaseTimeNanos :: int where
  "kBaseTimeNanos = 130"

definition PANEL_SWAP_G_B :: "build \<Rightarrow> bool" where
  "PANEL_SWAP_G_B bld = RGB_SWAP_GREEN_BLUE bld"

definition SUB_PANELS :: "build \<Rightarrow> int" where
  "SUB_PANELS bld = (if ONLY_SINGLE_SUB_PANEL bld then 1 else 2)"

section \<open>IO words\<close>

text \<open>
  \<^verbatim>\<open>IoBits0\<close> and \<^verbatim>\<open>IoBits1\<close> are unions of a \<^verbatim>\<open>raw\<close> word and a struct of named
  one-bit fields; they are declared in \<^verbatim>\<open>framebuffer-internal.h\<close>, which fixes the bit
  position of each field per pinout. No function of \<^verbatim>\<open>framebuffer.cc\<close> depends on the
  positions, so an IO word is the set of its fields that are 1: \<^verbatim>\<open>raw = 0\<close> is the empty
  set, a mask is contained in another as a subset. The fields are those that
  \<^verbatim>\<open>framebuffer.cc\<close> names.
\<close>

datatype pin =
    output_enable | clock | strobe
  | output_enable_rev1 | output_enable_rev2 | clock_rev1 | clock_rev2
  | addr_a | addr_b | addr_c | addr_d | addr_e
  | p0_r1 | p0_g1 | p0_b1 | p0_r2 | p0_g2 | p0_b2
  | p1_r1 | p1_g1 | p1_b1 | p1_r2 | p1_g2 | p1_b2
  | p2_r1 | p2_g1 | p2_b1 | p2_r2 | p2_g2 | p2_b2
  | p3_r1 | p3_g1 | p3_b1 | p3_r2 | p3_g2 | p3_b2
  | p4_r1 | p4_g1 | p4_b1 | p4_r2 | p4_g2 | p4_b2

type_synonym IoBits0 = "pin set"
type_synonym IoBits1 = "pin set"

text \<open>
  Modelled from the spec: the default constructor of \<^verbatim>\<open>IoBits0\<close>/\<^verbatim>\<open>IoBits1\<close> is in
  \<^verbatim>\<open>framebuffer-internal.h\<close>, not in \<^verbatim>\<open>framebuffer.cc\<close>. The spec describes an IO word
  as a packed set of named bit fields and the masks of the refresh engine as holding
  exactly the fields it names, which is what a constructor that clears \<^verbatim>\<open>raw\<close> gives to
  the locals that \<^verbatim>\<open>InitGPIO\<close> and \<^verbatim>\<open>DumpToMatrix\<close> declare and then set field by field.
\<close>

definition IoBits_default :: "pin set" where
  "IoBits_default = {}"

text \<open>\<^verbatim>\<open>w.bits.f = v\<close> for a one-bit field: the other fields keep their value.\<close>

definition assign :: "pin \<Rightarrow> bool \<Rightarrow> pin set \<Rightarrow> pin set" where
  "assign f v w = (if v then insert f w else w - {f})"

text \<open>\<^verbatim>\<open>w.bits.f1 = w.bits.f2 = ... = v\<close>\<close>

fun assign_all :: "pin list \<Rightarrow> bool \<Rightarrow> pin set \<Rightarrow> pin set" where
  "assign_all [] v w = w"
| "assign_all (f # fs) v w = assign_all fs v (assign f v w)"

section \<open>The framebuffer object\<close>

text \<open>
  The members that \<^verbatim>\<open>framebuffer.cc\<close> reads and writes; a member \<^verbatim>\<open>rows_\<close> is
  written \<open>rows_m\<close> here, since a name cannot end in an underscore. The \<^verbatim>\<open>int\<close> members are
  \<open>int\<close>; \<^verbatim>\<open>pwm_bits_\<close> and \<^verbatim>\<open>brightness_\<close> are bytes, kept as the \<open>nat\<close> they hold.
  \<^verbatim>\<open>bitplane_buffer_1\<close> exists under \<^verbatim>\<open>CM_5_CHAIN_SUPPORT\<close> only and is \<open>[]\<close> otherwise.
\<close>

record Framebuffer =
  rows_m :: int
  parallel_m :: int
  height_m :: int
  columns_m :: int
  pwm_bits_m :: nat
  do_luminance_correct_m :: bool
  brightness_m :: nat
  double_rows_m :: int
  row_mask_m :: int
  bitplane_buffer_0 :: "IoBits0 list"
  bitplane_buffer_1 :: "IoBits1 list"

subsection \<open>\<^verbatim>\<open>SetPWMBits\<close>\<close>

text \<open>Returns the \<^verbatim>\<open>bool\<close> result and the object after the call.\<close>

definition SetPWMBits :: "8 word \<Rightarrow> Framebuffer \<Rightarrow> bool \<times> Framebuffer" where
  "SetPWMBits v fb =
     (if unat v < 1 \<or> unat v > kBitPlanes then (False, fb)
      else (True, fb\<lparr>pwm_bits_m := unat v\<rparr>))"

section \<open>\<^verbatim>\<open>InitGPIO\<close>\<close>

text \<open>
  The GPIO backend is external. \<^verbatim>\<open>InitOutputs0\<close> and \<^verbatim>\<open>InitOutputs1\<close> return the subset
  of the requested pins that the backend supports; they are parameters here.
\<close>

record GPIO =
  InitOutputs0 :: "IoBits0 \<Rightarrow> IoBits0"
  InitOutputs1 :: "IoBits1 \<Rightarrow> IoBits1"

text \<open>What \<^verbatim>\<open>PinPulser::Create\<close> is handed: the output-enable bits and the timings.\<close>

record PinPulser =
  pulser_bits :: IoBits0
  pulser_timings :: "int list"

text \<open>The bits \<^verbatim>\<open>b0\<close> and \<^verbatim>\<open>b1\<close> that \<^verbatim>\<open>InitGPIO\<close> declares to the backend.\<close>

definition InitGPIO_b0 :: "build \<Rightarrow> int \<Rightarrow> int \<Rightarrow> IoBits0" where
  "InitGPIO_b0 bld rows parallel =
     (let b0 = {};
          b0 = (if PI_REV1_RGB_PINOUT bld
                then assign_all [clock_rev1, clock_rev2] True
                       (assign_all [output_enable_rev1, output_enable_rev2] True b0)
                else b0);
          b0 = assign output_enable True b0;
          b0 = assign clock True b0;
          b0 = assign strobe True b0;
          b0 = assign_all [p0_r1, p0_g1, p0_b1] True b0;
          b0 = assign_all [p0_r2, p0_g2, p0_b2] True b0;
          b0 = (if \<not> ONLY_SINGLE_CHAIN bld \<and> parallel \<ge> 2
                then assign_all [p1_r2, p1_g2, p1_b2] True
                       (assign_all [p1_r1, p1_g1, p1_b1] True b0)
                else b0);
          b0 = (if \<not> ONLY_SINGLE_CHAIN bld \<and> parallel \<ge> 3
                then assign_all [p2_r2, p2_g2, p2_b2] True
                       (assign_all [p2_r1, p2_g1, p2_b1] True b0)
                else b0);
          double_rows = rows div 2;
          b0 = (if double_rows \<ge> 32 then assign addr_e True b0 else b0);
          b0 = (if double_rows \<ge> 16 then assign addr_d True b0 else b0);
          b0 = (if double_rows \<ge> 8 then assign addr_c True b0 else b0);
          b0 = (if double_rows \<ge> 4 then assign addr_b True b0 else b0)
      in assign addr_a True b0)"

definition InitGPIO_b1 :: "build \<Rightarrow> int \<Rightarrow> IoBits1" where
  "InitGPIO_b1 bld parallel =
     (let b1 = {};
          b1 = (if parallel \<ge> 2
                then assign_all [p3_r2, p3_g2, p3_b2] True
                       (assign_all [p3_r1, p3_g1, p3_b1] True b1)
                else b1)
      in (if parallel \<ge> 3
          then assign_all [p4_r2, p4_g2, p4_b2] True
                 (assign_all [p4_r1, p4_g1, p4_b1] True b1)
          else b1))"

text \<open>
  The loop \<^verbatim>\<open>for (int b = 0; b < kBitPlanes; ++b) push_back(kBaseTimeNanos << b)\<close>.
  \<^verbatim>\<open>kBaseTimeNanos\<close> is a \<^verbatim>\<open>long\<close> and the vector holds \<^verbatim>\<open>int\<close>; the largest entry is
  \<open>130 * 2 ^ 10\<close>, far below \<open>2 ^ 31\<close>, so neither the shift nor the conversion wraps.
\<close>

function bitplane_timings_from :: "nat \<Rightarrow> int list \<Rightarrow> int list" where
  "bitplane_timings_from b acc =
     (if b < kBitPlanes then bitplane_timings_from (b + 1) (acc @ [push_bit b kBaseTimeNanos])
      else acc)"
  by pat_completeness auto
termination
  by (relation "measure (\<lambda>(b, acc). kBitPlanes - b)") auto

definition output_enable_bits0 :: "build \<Rightarrow> IoBits0" where
  "output_enable_bits0 bld =
     (let oe = IoBits_default;
          oe = (if PI_REV1_RGB_PINOUT bld
                then assign_all [output_enable_rev1, output_enable_rev2] True oe else oe)
      in assign output_enable True oe)"

text \<open>
  \<^verbatim>\<open>InitGPIO\<close> on the global \<^verbatim>\<open>sOutputEnablePulser\<close> (\<open>None\<close> is \<^verbatim>\<open>NULL\<close>). The result is
  \<open>None\<close> when an \<^verbatim>\<open>assert\<close> fails; otherwise the new value of the global and the masks
  that the \<^verbatim>\<open>InitOutputs\<close> calls of this invocation returned, in call order.
\<close>

definition InitGPIO ::
  "build \<Rightarrow> GPIO \<Rightarrow> int \<Rightarrow> int \<Rightarrow> PinPulser option \<Rightarrow> (PinPulser option \<times> pin set list) option"
where
  "InitGPIO bld io rows parallel sOutputEnablePulser =
     (if sOutputEnablePulser \<noteq> None then Some (sOutputEnablePulser, [])
      else
        let b0 = InitGPIO_b0 bld rows parallel;
            b1 = InitGPIO_b1 bld parallel;
            result0 = InitOutputs0 io b0;
            result1 = InitOutputs1 io b1;
            pulser = \<lparr>pulser_bits = output_enable_bits0 bld,
                      pulser_timings = bitplane_timings_from 0 []\<rparr>
        in if result0 \<noteq> b0 then None
           else if CM_5_CHAIN_SUPPORT bld then
             (if result1 \<noteq> b1 then None else Some (Some pulser, [result0, result1]))
           else Some (Some pulser, [result0]))"

section \<open>The luminance map\<close>

text \<open>
  \<^verbatim>\<open>luminance_cie1931\<close> computes
  \<^verbatim>\<open>out_factor * ((v <= 8) ? v / 902.3 : pow((v + 16) / 116.0, 3))\<close> with
  \<^verbatim>\<open>v = (float) c * brightness / 255.0\<close>, in \<^verbatim>\<open>float\<close> and \<^verbatim>\<open>double\<close> arithmetic, and
  converts the result to \<^verbatim>\<open>uint16_t\<close>, which truncates. The model evaluates the same
  expression in exact rational arithmetic: rounding of the floating-point operations is
  not modelled. The value is never negative, so truncation is \<open>floor\<close>, and it stays
  below \<open>2 ^ 16\<close> for all byte arguments.
\<close>

definition luminance_cie1931_value :: "nat \<Rightarrow> nat \<Rightarrow> rat" where
  "luminance_cie1931_value c brightness =
     (let out_factor = (2 ^ kBitPlanes - 1 :: rat);
          v = of_nat c * of_nat brightness / 255
      in out_factor * (if v \<le> 8 then v / (9023 / 10) else ((v + 16) / 116) ^ 3))"

definition luminance_cie1931 :: "8 word \<Rightarrow> 8 word \<Rightarrow> 16 word" where
  "luminance_cie1931 c brightness =
     word_of_int \<lfloor>luminance_cie1931_value (unat c) (unat brightness)\<rfloor>"

text \<open>
  \<^verbatim>\<open>CreateLuminanceCIE1931LookupTable\<close>: \<^verbatim>\<open>result[i * 100 + j] = luminance_cie1931(i, j + 1)\<close>
  for \<open>i < 256\<close> and \<open>j < 100\<close>, that is entry \<open>k\<close> is
  \<^verbatim>\<open>luminance_cie1931(k / 100, k % 100 + 1)\<close> for \<open>k < 25600\<close>.
\<close>

definition CreateLuminanceCIE1931LookupTable :: "16 word list" where
  "CreateLuminanceCIE1931LookupTable =
     map (\<lambda>k. luminance_cie1931 (of_nat (k div 100)) (of_nat (k mod 100 + 1))) [0..<256 * 100]"

definition COLOR_OUT_BITS :: "build \<Rightarrow> 16 word \<Rightarrow> 16 word" where
  "COLOR_OUT_BITS bld x = (if INVERSE_RGB_DISPLAY_COLORS bld then x XOR 0xffff else x)"

text \<open>
  \<^verbatim>\<open>MapColor\<close>. The table index is \<^verbatim>\<open>c * 100 + (brightness_ - 1)\<close>; the source reads
  outside the table when \<^verbatim>\<open>brightness_\<close> is 0 or above 100, so statements about the
  corrected value carry \<open>1 \<le> brightness_m \<le> 100\<close>. In the other branch \<^verbatim>\<open>c\<close> is
  reassigned as a byte and shifted by \<^verbatim>\<open>shift = kBitPlanes - 8\<close>.
\<close>

definition MapColor :: "build \<Rightarrow> Framebuffer \<Rightarrow> 8 word \<Rightarrow> 16 word" where
  "MapColor bld fb c =
     (if do_luminance_correct_m fb then
        COLOR_OUT_BITS bld
          (CreateLuminanceCIE1931LookupTable ! nat (int (unat c) * 100 + (int (brightness_m fb) - 1)))
      else
        let c' = (word_of_nat (unat c * brightness_m fb div 100) :: 8 word);
            shift = int kBitPlanes - 8
        in COLOR_OUT_BITS bld
             (if shift > 0 then word_of_nat (push_bit (nat shift) (unat c'))
              else word_of_nat (drop_bit (nat (- shift)) (unat c'))))"

section \<open>The bit-plane buffers\<close>

text \<open>\<^verbatim>\<open>ValueAt_0\<close> and \<^verbatim>\<open>ValueAt_1\<close> compute the same offset into their buffer.\<close>

definition ValueAt :: "Framebuffer \<Rightarrow> int \<Rightarrow> int \<Rightarrow> int \<Rightarrow> int" where
  "ValueAt fb double_row column bitplane =
     double_row * (columns_m fb * int kBitPlanes) + bitplane * columns_m fb + column"

subsection \<open>\<^verbatim>\<open>Fill\<close>\<close>

text \<open>The words \<^verbatim>\<open>plane_bits0\<close> and \<^verbatim>\<open>plane_bits1\<close> that \<^verbatim>\<open>Fill\<close> builds for plane \<open>b\<close>.\<close>

definition plane_bits0 :: "build \<Rightarrow> 16 word \<Rightarrow> 16 word \<Rightarrow> 16 word \<Rightarrow> int \<Rightarrow> IoBits0" where
  "plane_bits0 bld red green blue b =
     (let mask = (push_bit (nat b) 1 :: 16 word);
          w = {};
          w = assign_all [p0_r2, p0_r1] (red AND mask = mask) w;
          w = assign_all [p0_g2, p0_g1] (green AND mask = mask) w;
          w = assign_all [p0_b2, p0_b1] (blue AND mask = mask) w
      in if ONLY_SINGLE_CHAIN bld then w
         else
           let w = assign_all [p2_r2, p2_r1, p1_r2, p1_r1] (red AND mask = mask) w;
               w = assign_all [p2_g2, p2_g1, p1_g2, p1_g1] (green AND mask = mask) w
           in assign_all [p2_b2, p2_b1, p1_b2, p1_b1] (blue AND mask = mask) w)"

definition plane_bits1 :: "16 word \<Rightarrow> 16 word \<Rightarrow> 16 word \<Rightarrow> int \<Rightarrow> IoBits1" where
  "plane_bits1 red green blue b =
     (let mask = (push_bit (nat b) 1 :: 16 word);
          w = {};
          w = assign_all [p4_r2, p4_r1, p3_r2, p3_r1] (red AND mask = mask) w;
          w = assign_all [p4_g2, p4_g1, p3_g2, p3_g1] (green AND mask = mask) w
      in assign_all [p4_b2, p4_b1, p3_b2, p3_b1] (blue AND mask = mask) w)"

text \<open>
  The three nested loops of \<^verbatim>\<open>Fill\<close>, innermost first. The source advances
  \<^verbatim>\<open>row_data0\<close> and \<^verbatim>\<open>row_data1\<close> together and stores one word through each; the two
  buffers do not alias, so the loops are run here on one buffer, with the word to store
  as a function of the plane, once for each buffer.
\<close>

function Fill_cols :: "pin set \<Rightarrow> int \<Rightarrow> int \<Rightarrow> int \<Rightarrow> pin set list \<Rightarrow> pin set list" where
  "Fill_cols raw columns col row_data buf =
     (if col < columns then Fill_cols raw columns (col + 1) (row_data + 1) (buf[nat row_data := raw])
      else buf)"
  by pat_completeness auto
termination
  by (relation "measure (\<lambda>(raw, columns, col, row_data, buf). nat (columns - col))") auto

function Fill_rows :: "Framebuffer \<Rightarrow> pin set \<Rightarrow> int \<Rightarrow> int \<Rightarrow> pin set list \<Rightarrow> pin set list" where
  "Fill_rows fb raw b row buf =
     (if row < double_rows_m fb
      then Fill_rows fb raw b (row + 1) (Fill_cols raw (columns_m fb) 0 (ValueAt fb row 0 b) buf)
      else buf)"
  by pat_completeness auto
termination
  by (relation "measure (\<lambda>(fb, raw, b, row, buf). nat (double_rows_m fb - row))") auto

function Fill_planes :: "Framebuffer \<Rightarrow> (int \<Rightarrow> pin set) \<Rightarrow> int \<Rightarrow> pin set list \<Rightarrow> pin set list" where
  "Fill_planes fb plane_bits b buf =
     (if b < int kBitPlanes then Fill_planes fb plane_bits (b + 1) (Fill_rows fb (plane_bits b) b 0 buf)
      else buf)"
  by pat_completeness auto
termination
  by (relation "measure (\<lambda>(fb, plane_bits, b, buf). nat (int kBitPlanes - b))") auto

definition Fill :: "build \<Rightarrow> 8 word \<Rightarrow> 8 word \<Rightarrow> 8 word \<Rightarrow> Framebuffer \<Rightarrow> Framebuffer" where
  "Fill bld r g b fb =
     (let red = MapColor bld fb r;
          green = MapColor bld fb (if PANEL_SWAP_G_B bld then b else g);
          blue = MapColor bld fb (if PANEL_SWAP_G_B bld then g else b);
          first_plane = int kBitPlanes - int (pwm_bits_m fb)
      in fb\<lparr>bitplane_buffer_0 :=
               Fill_planes fb (plane_bits0 bld red green blue) first_plane (bitplane_buffer_0 fb),
             bitplane_buffer_1 :=
               (if CM_5_CHAIN_SUPPORT bld
                then Fill_planes fb (plane_bits1 red green blue) first_plane (bitplane_buffer_1 fb)
                else bitplane_buffer_1 fb)\<rparr>)"

subsection \<open>\<^verbatim>\<open>Clear\<close>\<close>

text \<open>
  \<^verbatim>\<open>memset\<close> clears the first \<^verbatim>\<open>double_rows_ * columns_ * kBitPlanes\<close> words, which is
  the whole buffer as the constructor allocates it.
\<close>

definition Clear :: "build \<Rightarrow> Framebuffer \<Rightarrow> Framebuffer" where
  "Clear bld fb =
     (if INVERSE_RGB_DISPLAY_COLORS bld then Fill bld 0 0 0 fb
      else
        let n = nat (double_rows_m fb * columns_m fb * int kBitPlanes)
        in fb\<lparr>bitplane_buffer_0 := replicate n {} @ drop n (bitplane_buffer_0 fb),
               bitplane_buffer_1 :=
                 (if CM_5_CHAIN_SUPPORT bld then replicate n {} @ drop n (bitplane_buffer_1 fb)
                  else bitplane_buffer_1 fb)\<rparr>)"

subsection \<open>The constructor\<close>

text \<open>
  \<open>None\<close> when the allocation fails (a negative array size), when the \<^verbatim>\<open>int\<close> product
  \<^verbatim>\<open>double_rows_ * columns_ * kBitPlanes\<close> overflows, or when an \<^verbatim>\<open>assert\<close> fails. The
  source allocates and clears before it asserts; a failed assertion aborts, so the order
  is not observable. \<^verbatim>\<open>new IoBits0[n]\<close> default-constructs every word. With the size
  below \<open>2 ^ 31\<close> every offset that \<^verbatim>\<open>ValueAt_0\<close> computes for a word of the buffer fits an
  \<^verbatim>\<open>int\<close>, so the unbounded integers of the model agree with the source.
\<close>

definition Framebuffer_ctor :: "build \<Rightarrow> int \<Rightarrow> int \<Rightarrow> int \<Rightarrow> Framebuffer option" where
  "Framebuffer_ctor bld rows columns parallel =
     (let double_rows = rows div SUB_PANELS bld;
          n = double_rows * columns * int kBitPlanes;
          fb = \<lparr>rows_m = rows, parallel_m = parallel, height_m = rows * parallel,
                columns_m = columns, pwm_bits_m = kBitPlanes, do_luminance_correct_m = True,
                brightness_m = 100, double_rows_m = double_rows, row_mask_m = double_rows - 1,
                bitplane_buffer_0 = replicate (nat n) IoBits_default,
                bitplane_buffer_1 =
                  (if CM_5_CHAIN_SUPPORT bld then replicate (nat n) IoBits_default else [])\<rparr>
      in if n < 0 \<or> n > 2147483647 then None
         else if \<not> (rows = 8 \<or> rows = 16 \<or> rows = 32 \<or> rows = 64) then None
         else if \<not> (parallel \<ge> 1 \<and> parallel \<le> (if CM_5_CHAIN_SUPPORT bld then 5 else 3)) then None
         else if ONLY_SINGLE_CHAIN bld \<and> parallel > 1 then None
         else Some (Clear bld fb))"

subsection \<open>\<^verbatim>\<open>SetPixel\<close>\<close>

text \<open>
  One of the ten plane loops of \<^verbatim>\<open>SetPixel\<close>: they differ in the three fields they
  assign (\<open>fr\<close>, \<open>fg\<close>, \<open>fb\<close>) and in the buffer that \<^verbatim>\<open>bits\<close> points into. \<^verbatim>\<open>bits\<close> is the
  offset of the pointer in its buffer.
\<close>

function SetPixel_planes ::
  "pin \<Rightarrow> pin \<Rightarrow> pin \<Rightarrow> 16 word \<Rightarrow> 16 word \<Rightarrow> 16 word \<Rightarrow> int \<Rightarrow> int \<Rightarrow> int \<Rightarrow> pin set list
   \<Rightarrow> pin set list"
where
  "SetPixel_planes fr fg fb red green blue columns b bits buf =
     (if b < int kBitPlanes then
        let mask = (push_bit (nat b) 1 :: 16 word);
            w = buf ! nat bits;
            w = assign fr (red AND mask = mask) w;
            w = assign fg (green AND mask = mask) w;
            w = assign fb (blue AND mask = mask) w
        in SetPixel_planes fr fg fb red green blue columns (b + 1) (bits + columns)
             (buf[nat bits := w])
      else buf)"
  by pat_completeness auto
termination
  by (relation "measure (\<lambda>(fr, fg, fb, red, green, blue, columns, b, bits, buf).
                           nat (int kBitPlanes - b))") auto

definition SetPixel ::
  "build \<Rightarrow> int \<Rightarrow> int \<Rightarrow> 8 word \<Rightarrow> 8 word \<Rightarrow> 8 word \<Rightarrow> Framebuffer \<Rightarrow> Framebuffer"
where
  "SetPixel bld x y r g b fb =
     (if x < 0 \<or> x \<ge> columns_m fb \<or> y < 0 \<or> y \<ge> height_m fb then fb
      else
        let red = MapColor bld fb r;
            green = MapColor bld fb (if PANEL_SWAP_G_B bld then b else g);
            blue = MapColor bld fb (if PANEL_SWAP_G_B bld then g else b);
            min_bit_plane = int kBitPlanes - int (pwm_bits_m fb);
            bits = ValueAt fb (y AND row_mask_m fb) x min_bit_plane;
            on0 = (\<lambda>fr fg fbl.
                     fb\<lparr>bitplane_buffer_0 :=
                          SetPixel_planes fr fg fbl red green blue (columns_m fb) min_bit_plane
                            bits (bitplane_buffer_0 fb)\<rparr>);
            on1 = (\<lambda>fr fg fbl.
                     fb\<lparr>bitplane_buffer_1 :=
                          SetPixel_planes fr fg fbl red green blue (columns_m fb) min_bit_plane
                            bits (bitplane_buffer_1 fb)\<rparr>)
        in if y < rows_m fb then
             (if y < double_rows_m fb then on0 p0_r1 p0_g1 p0_b1 else on0 p0_r2 p0_g2 p0_b2)
           else if \<not> ONLY_SINGLE_CHAIN bld \<and> y \<ge> rows_m fb \<and> y < 2 * rows_m fb then
             (if y - rows_m fb < double_rows_m fb then on0 p1_r1 p1_g1 p1_b1
              else on0 p1_r2 p1_g2 p1_b2)
           else if \<not> ONLY_SINGLE_CHAIN bld \<and> y \<ge> 2 * rows_m fb \<and> y < 3 * rows_m fb then
             (if y - 2 * rows_m fb < double_rows_m fb then on0 p2_r1 p2_g1 p2_b1
              else on0 p2_r2 p2_g2 p2_b2)
           else if CM_5_CHAIN_SUPPORT bld \<and> y \<ge> 3 * rows_m fb \<and> y < 4 * rows_m fb then
             (if y - 3 * rows_m fb < double_rows_m fb then on1 p3_r1 p3_g1 p3_b1
              else on1 p3_r2 p3_g2 p3_b2)
           else if CM_5_CHAIN_SUPPORT bld \<and> y \<ge> 4 * rows_m fb \<and> y < 5 * rows_m fb then
             (if y - 4 * rows_m fb < double_rows_m fb then on1 p4_r1 p4_g1 p4_b1
              else on1 p4_r2 p4_g2 p4_b2)
           else fb)"

section \<open>\<^verbatim>\<open>DumpToMatrix\<close>\<close>

text \<open>
  The calls that \<^verbatim>\<open>DumpToMatrix\<close> makes on the GPIO backend and on the pin pulser, in
  order. A call carries its arguments.
\<close>

datatype gpio_event =
    WriteMaskedBits IoBits0 IoBits0 IoBits1 IoBits1
  | SetBits IoBits0 IoBits1
  | ClearBits IoBits0 IoBits1
  | WaitPulseFinished
  | SendPulse int

text \<open>
  The locals that \<^verbatim>\<open>DumpToMatrix\<close> sets up before its loops; \<open>clock_bits\<close> and
  \<open>strobe_bits\<close> are the locals \<^verbatim>\<open>clock\<close> and \<^verbatim>\<open>strobe\<close>. \<^verbatim>\<open>color_clk_mask1\<close> exists under
  \<^verbatim>\<open>CM_5_CHAIN_SUPPORT\<close> only; without it the calls pass 0 in its place.
\<close>

record DumpLocals =
  color_clk_mask0 :: IoBits0
  color_clk_mask1 :: IoBits1
  row_mask :: IoBits0
  clock_bits :: IoBits0
  strobe_bits :: IoBits0
  pwm_to_show :: int

definition DumpToMatrix_locals :: "build \<Rightarrow> Framebuffer \<Rightarrow> DumpLocals" where
  "DumpToMatrix_locals bld fb =
     (let m0 = assign_all [p0_b2, p0_g2, p0_r2, p0_b1, p0_g1, p0_r1] True IoBits_default;
          m0 = (if \<not> ONLY_SINGLE_CHAIN bld \<and> parallel_m fb \<ge> 2
                then assign_all [p1_b2, p1_g2, p1_r2, p1_b1, p1_g1, p1_r1] True m0 else m0);
          m0 = (if \<not> ONLY_SINGLE_CHAIN bld \<and> parallel_m fb \<ge> 3
                then assign_all [p2_b2, p2_g2, p2_r2, p2_b1, p2_g1, p2_r1] True m0 else m0);
          m1 = IoBits_default;
          m1 = (if CM_5_CHAIN_SUPPORT bld \<and> parallel_m fb \<ge> 4
                then assign_all [p3_b2, p3_g2, p3_r2, p3_b1, p3_g1, p3_r1] True m1 else m1);
          m1 = (if CM_5_CHAIN_SUPPORT bld \<and> parallel_m fb \<ge> 5
                then assign_all [p4_b2, p4_g2, p4_r2, p4_b1, p4_g1, p4_r1] True m1 else m1);
          m0 = (if PI_REV1_RGB_PINOUT bld then assign_all [clock_rev2, clock_rev1] True m0 else m0);
          m0 = assign clock True m0;
          rm = assign_all [addr_e, addr_d, addr_c, addr_b, addr_a] True IoBits_default;
          ck = IoBits_default;
          ck = (if PI_REV1_RGB_PINOUT bld then assign_all [clock_rev2, clock_rev1] True ck else ck);
          ck = assign clock True ck;
          st = assign strobe True IoBits_default
      in \<lparr>color_clk_mask0 = m0, color_clk_mask1 = m1, row_mask = rm, clock_bits = ck,
          strobe_bits = st, pwm_to_show = int (pwm_bits_m fb)\<rparr>)"

text \<open>The column loop; \<open>row_data\<close> is the common offset of \<^verbatim>\<open>row_data0\<close> and \<^verbatim>\<open>row_data1\<close>.\<close>

function DumpToMatrix_cols ::
  "build \<Rightarrow> Framebuffer \<Rightarrow> DumpLocals \<Rightarrow> int \<Rightarrow> int \<Rightarrow> gpio_event list"
where
  "DumpToMatrix_cols bld fb L col row_data =
     (if col < columns_m fb then
        (if CM_5_CHAIN_SUPPORT bld
         then WriteMaskedBits (bitplane_buffer_0 fb ! nat row_data) (color_clk_mask0 L)
                (bitplane_buffer_1 fb ! nat row_data) (color_clk_mask1 L)
         else WriteMaskedBits (bitplane_buffer_0 fb ! nat row_data) (color_clk_mask0 L) {} {})
        # SetBits (clock_bits L) {}
        # DumpToMatrix_cols bld fb L (col + 1) (row_data + 1)
      else [])"
  by pat_completeness auto
termination
  by (relation "measure (\<lambda>(bld, fb, L, col, row_data). nat (columns_m fb - col))") auto

text \<open>The plane loop of one double row.\<close>

function DumpToMatrix_planes ::
  "build \<Rightarrow> Framebuffer \<Rightarrow> DumpLocals \<Rightarrow> nat \<Rightarrow> int \<Rightarrow> gpio_event list"
where
  "DumpToMatrix_planes bld fb L d_row b =
     (if b < int kBitPlanes then
        DumpToMatrix_cols bld fb L 0 (ValueAt fb (int d_row) 0 b)
        @ [ClearBits (color_clk_mask0 L) (if CM_5_CHAIN_SUPPORT bld then color_clk_mask1 L else {}),
           WaitPulseFinished,
           SetBits (strobe_bits L) {},
           ClearBits (strobe_bits L) {},
           SendPulse b]
        @ DumpToMatrix_planes bld fb L d_row (b + 1)
      else [])"
  by pat_completeness auto
termination
  by (relation "measure (\<lambda>(bld, fb, L, d_row, b). nat (int kBitPlanes - b))") auto

text \<open>
  The fields of \<^verbatim>\<open>row_address\<close> are one bit wide, so \<^verbatim>\<open>row_address.bits.b = d_row >> 1\<close>
  stores the lowest bit of \<^verbatim>\<open>d_row >> 1\<close>. \<^verbatim>\<open>row_address\<close> is declared before the loop and
  lives across its iterations.
\<close>

definition set_row_address :: "nat \<Rightarrow> IoBits0 \<Rightarrow> IoBits0" where
  "set_row_address d_row row_address =
     (let ra = assign addr_a (odd d_row) row_address;
          ra = assign addr_b (odd (drop_bit 1 d_row)) ra;
          ra = assign addr_c (odd (drop_bit 2 d_row)) ra;
          ra = assign addr_d (odd (drop_bit 3 d_row)) ra
      in assign addr_e (odd (drop_bit 4 d_row)) ra)"

function DumpToMatrix_rows ::
  "build \<Rightarrow> Framebuffer \<Rightarrow> DumpLocals \<Rightarrow> nat \<Rightarrow> IoBits0 \<Rightarrow> gpio_event list"
where
  "DumpToMatrix_rows bld fb L d_row row_address =
     (if int d_row < double_rows_m fb then
        let ra = set_row_address d_row row_address
        in WriteMaskedBits ra (row_mask L) {} {}
           # DumpToMatrix_planes bld fb L d_row (int kBitPlanes - pwm_to_show L)
           @ [WaitPulseFinished]
           @ DumpToMatrix_rows bld fb L (d_row + 1) ra
      else [])"
  by pat_completeness auto
termination
  by (relation "measure (\<lambda>(bld, fb, L, d_row, ra). nat (double_rows_m fb) - d_row)") auto

text \<open>
  \<^verbatim>\<open>d_row\<close> is a \<^verbatim>\<open>uint8_t\<close>: with more than 255 double rows the comparison
  \<^verbatim>\<open>d_row < double_rows_\<close> never fails and the function does not return (\<open>None\<close>). With
  at most 255 the counter does not wrap.
\<close>

definition DumpToMatrix :: "build \<Rightarrow> Framebuffer \<Rightarrow> gpio_event list option" where
  "DumpToMatrix bld fb =
     (if double_rows_m fb > 255 then None
      else Some (DumpToMatrix_rows bld fb (DumpToMatrix_locals bld fb) 0 IoBits_default))"

section \<open>Sequences of mutator calls\<close>

text \<open>
  Modelled from the spec: \<^verbatim>\<open>SetBrightness\<close> is defined in \<^verbatim>\<open>framebuffer-internal.h\<close>, not
  in \<^verbatim>\<open>framebuffer.cc\<close>. The spec says: \<^verbatim>\<open>SetBrightness(v)\<close>: \<open>v \<in> [1, 100]\<close>; takes effect on
  the next mutator call. It says nothing about other values, for which the result here
  is \<open>None\<close>.
\<close>

definition SetBrightness :: "8 word \<Rightarrow> Framebuffer \<Rightarrow> Framebuffer option" where
  "SetBrightness v fb =
     (if 1 \<le> unat v \<and> unat v \<le> 100 then Some (fb\<lparr>brightness_m := unat v\<rparr>) else None)"

datatype mutator =
    Call_Clear
  | Call_Fill "8 word" "8 word" "8 word"
  | Call_SetPixel int int "8 word" "8 word" "8 word"
  | Call_SetPWMBits "8 word"
  | Call_SetBrightness "8 word"

fun run_mutator :: "build \<Rightarrow> mutator \<Rightarrow> Framebuffer \<Rightarrow> Framebuffer option" where
  "run_mutator bld Call_Clear fb = Some (Clear bld fb)"
| "run_mutator bld (Call_Fill r g b) fb = Some (Fill bld r g b fb)"
| "run_mutator bld (Call_SetPixel x y r g b) fb = Some (SetPixel bld x y r g b fb)"
| "run_mutator bld (Call_SetPWMBits v) fb = Some (snd (SetPWMBits v fb))"
| "run_mutator bld (Call_SetBrightness v) fb = SetBrightness v fb"

fun run_mutators :: "build \<Rightarrow> mutator list \<Rightarrow> Framebuffer \<Rightarrow> Framebuffer option" where
  "run_mutators bld [] fb = Some fb"
| "run_mutators bld (m # ms) fb =
     (case run_mutator bld m fb of None \<Rightarrow> None | Some fb' \<Rightarrow> run_mutators bld ms fb')"

section \<open>Observations used in the statements\<close>

text \<open>The first-word mask of a GPIO call: the pins of word 0 that the call may change.\<close>

fun event_mask0 :: "gpio_event \<Rightarrow> pin set" where
  "event_mask0 (WriteMaskedBits v0 m0 v1 m1) = m0"
| "event_mask0 (SetBits b0 b1) = b0"
| "event_mask0 (ClearBits b0 b1) = b0"
| "event_mask0 WaitPulseFinished = {}"
| "event_mask0 (SendPulse k) = {}"

fun event_mask1 :: "gpio_event \<Rightarrow> pin set" where
  "event_mask1 (WriteMaskedBits v0 m0 v1 m1) = m1"
| "event_mask1 (SetBits b0 b1) = b1"
| "event_mask1 (ClearBits b0 b1) = b1"
| "event_mask1 WaitPulseFinished = {}"
| "event_mask1 (SendPulse k) = {}"

text \<open>The planes of the \<^verbatim>\<open>SendPulse\<close> calls of a trace, in order.\<close>

fun pulses :: "gpio_event list \<Rightarrow> int list" where
  "pulses [] = []"
| "pulses (SendPulse k # es) = k # pulses es"
| "pulses (e # es) = pulses es"

text \<open>
  The calls that clock in and display plane \<open>k\<close> of double row \<open>d\<close>: the column writes,
  the clear of the color and clock bits, the wait for the previous pulse, the strobe set
  and clear, and the pulse of plane \<open>k\<close>.
\<close>

definition plane_events :: "build \<Rightarrow> Framebuffer \<Rightarrow> DumpLocals \<Rightarrow> nat \<Rightarrow> int \<Rightarrow> gpio_event list" where
  "plane_events bld fb L d k =
     DumpToMatrix_cols bld fb L 0 (ValueAt fb (int d) 0 k)
     @ [ClearBits (color_clk_mask0 L) (if CM_5_CHAIN_SUPPORT bld then color_clk_mask1 L else {}),
        WaitPulseFinished, SetBits {strobe} {}, ClearBits {strobe} {}, SendPulse k]"

text \<open>The five address lines, and the row address that selects double row \<open>d\<close>.\<close>

definition address_lines :: "pin set" where
  "address_lines = {addr_a, addr_b, addr_c, addr_d, addr_e}"

definition row_address_of :: "nat \<Rightarrow> pin set" where
  "row_address_of d =
     (if bit d 0 then {addr_a} else {}) \<union> (if bit d 1 then {addr_b} else {})
     \<union> (if bit d 2 then {addr_c} else {}) \<union> (if bit d 3 then {addr_d} else {})
     \<union> (if bit d 4 then {addr_e} else {})"

text \<open>The calls of one iteration of the row loop of \<^verbatim>\<open>DumpToMatrix\<close>, for double row \<open>d\<close>.\<close>

definition row_events :: "build \<Rightarrow> Framebuffer \<Rightarrow> DumpLocals \<Rightarrow> nat \<Rightarrow> gpio_event list" where
  "row_events bld fb L d =
     WriteMaskedBits (row_address_of d) address_lines {} {}
     # DumpToMatrix_planes bld fb L d (int kBitPlanes - pwm_to_show L) @ [WaitPulseFinished]"

text \<open>A GPIO backend that supports every pin.\<close>

definition all_pins_gpio :: GPIO where
  "all_pins_gpio = \<lparr>InitOutputs0 = (\<lambda>m. m), InitOutputs1 = (\<lambda>m. m)\<rparr>"

text \<open>
  The framebuffer of the scenarios: the default build, 32 rows, 32 columns, one chain, as
  the constructor leaves it.
\<close>

definition example_fb :: Framebuffer where
  "example_fb = the (Framebuffer_ctor default_build 32 32 1)"

text \<open>
  What the constructor establishes and every mutator keeps: the geometry that the
  assertions of the constructor accept, a buffer size that fits an \<^verbatim>\<open>int\<close>, the derived
  members, the ranges of \<^verbatim>\<open>pwm_bits_\<close>
  and \<^verbatim>\<open>brightness_\<close>, and the size of the buffers.
\<close>

definition well_formed :: "build \<Rightarrow> Framebuffer \<Rightarrow> bool" where
  "well_formed bld fb =
     ((rows_m fb = 8 \<or> rows_m fb = 16 \<or> rows_m fb = 32 \<or> rows_m fb = 64)
      \<and> 1 \<le> parallel_m fb
      \<and> parallel_m fb \<le> (if ONLY_SINGLE_CHAIN bld then 1 else if CM_5_CHAIN_SUPPORT bld then 5 else 3)
      \<and> height_m fb = rows_m fb * parallel_m fb
      \<and> 0 \<le> columns_m fb
      \<and> rows_m fb div SUB_PANELS bld = double_rows_m fb
      \<and> row_mask_m fb = double_rows_m fb - 1
      \<and> double_rows_m fb * columns_m fb * int kBitPlanes \<le> 2147483647
      \<and> 1 \<le> pwm_bits_m fb \<and> pwm_bits_m fb \<le> kBitPlanes
      \<and> 1 \<le> brightness_m fb \<and> brightness_m fb \<le> 100
      \<and> length (bitplane_buffer_0 fb) = nat (double_rows_m fb * columns_m fb * int kBitPlanes)
      \<and> length (bitplane_buffer_1 fb) =
          (if CM_5_CHAIN_SUPPORT bld then nat (double_rows_m fb * columns_m fb * int kBitPlanes)
           else 0))"

text \<open>The coordinates of a buffer word: double row \<open>d\<close>, column \<open>x\<close>, plane \<open>k\<close>.\<close>

definition valid_cell :: "Framebuffer \<Rightarrow> int \<Rightarrow> int \<Rightarrow> int \<Rightarrow> bool" where
  "valid_cell fb d x k =
     (0 \<le> d \<and> d < double_rows_m fb \<and> 0 \<le> x \<and> x < columns_m fb \<and> 0 \<le> k \<and> k < int kBitPlanes)"

definition cell0 :: "Framebuffer \<Rightarrow> int \<Rightarrow> int \<Rightarrow> int \<Rightarrow> pin set" where
  "cell0 fb d x k = bitplane_buffer_0 fb ! nat (ValueAt fb d x k)"

definition cell1 :: "Framebuffer \<Rightarrow> int \<Rightarrow> int \<Rightarrow> int \<Rightarrow> pin set" where
  "cell1 fb d x k = bitplane_buffer_1 fb ! nat (ValueAt fb d x k)"

text \<open>
  Where the spec puts pixel \<open>(x, y)\<close>: the chain is \<open>y / rows\<close>, the sub-panel is the upper
  one when \<open>y mod rows < double_rows\<close>, the word is at \<open>(y mod double_rows, x, k)\<close>, in the
  second buffer for the chains 4 and 5.
\<close>

definition lane_pins :: "int \<Rightarrow> bool \<Rightarrow> pin \<times> pin \<times> pin" where
  "lane_pins chain upper =
     (if chain = 0 then (if upper then (p0_r1, p0_g1, p0_b1) else (p0_r2, p0_g2, p0_b2))
      else if chain = 1 then (if upper then (p1_r1, p1_g1, p1_b1) else (p1_r2, p1_g2, p1_b2))
      else if chain = 2 then (if upper then (p2_r1, p2_g1, p2_b1) else (p2_r2, p2_g2, p2_b2))
      else if chain = 3 then (if upper then (p3_r1, p3_g1, p3_b1) else (p3_r2, p3_g2, p3_b2))
      else (if upper then (p4_r1, p4_g1, p4_b1) else (p4_r2, p4_g2, p4_b2)))"

definition pixel_lanes :: "Framebuffer \<Rightarrow> int \<Rightarrow> pin \<times> pin \<times> pin" where
  "pixel_lanes fb y = lane_pins (y div rows_m fb) (y mod rows_m fb < double_rows_m fb)"

definition pixel_word :: "Framebuffer \<Rightarrow> int \<Rightarrow> int \<Rightarrow> int \<Rightarrow> pin set" where
  "pixel_word fb x y k =
     (if y div rows_m fb < 3 then cell0 fb (y mod double_rows_m fb) x k
      else cell1 fb (y mod double_rows_m fb) x k)"

text \<open>
  The word that one iteration of a plane loop of \<^verbatim>\<open>SetPixel\<close> stores for plane \<open>k\<close>: the
  three fields of the lanes get bit \<open>k\<close> of red, green and blue, the other fields of the
  word \<open>w\<close> stay.
\<close>

definition write_lanes ::
  "pin \<Rightarrow> pin \<Rightarrow> pin \<Rightarrow> 16 word \<Rightarrow> 16 word \<Rightarrow> 16 word \<Rightarrow> int \<Rightarrow> pin set \<Rightarrow> pin set"
where
  "write_lanes fr fg fbl red green blue k w =
     assign fbl (bit blue (nat k)) (assign fg (bit green (nat k)) (assign fr (bit red (nat k)) w))"

text \<open>
  The value reassembled from per-plane bits: bit \<open>k\<close> of the result is \<open>f k\<close> for the
  planes \<open>k\<close> of the list, and 0 elsewhere.
\<close>

fun reassemble :: "(nat \<Rightarrow> bool) \<Rightarrow> nat list \<Rightarrow> 16 word" where
  "reassemble f [] = 0"
| "reassemble f (k # ks) = (if f k then push_bit k 1 else 0) OR reassemble f ks"

text \<open>
  The read-back of pixel \<open>(x, y)\<close>: red, green and blue reassembled from the stored bits
  of the planes \<open>[11 - pwm_bits, 11)\<close>.
\<close>

definition read_back :: "Framebuffer \<Rightarrow> int \<Rightarrow> int \<Rightarrow> 16 word \<times> 16 word \<times> 16 word" where
  "read_back fb x y =
     (let planes = [kBitPlanes - pwm_bits_m fb..<kBitPlanes];
          (fr, fg, fbl) = pixel_lanes fb y
      in (reassemble (\<lambda>k. fr \<in> pixel_word fb x y (int k)) planes,
          reassemble (\<lambda>k. fg \<in> pixel_word fb x y (int k)) planes,
          reassemble (\<lambda>k. fbl \<in> pixel_word fb x y (int k)) planes))"

text \<open>The 16-bit word with exactly the bits of the planes \<open>[11 - pwm, 11)\<close> set.\<close>

definition planes_mask :: "nat \<Rightarrow> 16 word" where
  "planes_mask pwm = mask kBitPlanes AND NOT (mask (kBitPlanes - pwm))"

text \<open>
  The color fields of the two words of a build, and the word of a cell whose color fields
  are all 0, or all 1 under \<^verbatim>\<open>INVERSE_RGB_DISPLAY_COLORS\<close>.
\<close>

definition color_pins0 :: "build \<Rightarrow> pin set" where
  "color_pins0 bld =
     {p0_r1, p0_g1, p0_b1, p0_r2, p0_g2, p0_b2}
     \<union> (if ONLY_SINGLE_CHAIN bld then {}
        else {p1_r1, p1_g1, p1_b1, p1_r2, p1_g2, p1_b2, p2_r1, p2_g1, p2_b1, p2_r2, p2_g2, p2_b2})"

definition color_pins1 :: "pin set" where
  "color_pins1 = {p3_r1, p3_g1, p3_b1, p3_r2, p3_g2, p3_b2, p4_r1, p4_g1, p4_b1, p4_r2, p4_g2, p4_b2}"

definition colors_off :: "build \<Rightarrow> Framebuffer \<Rightarrow> int \<Rightarrow> int \<Rightarrow> int \<Rightarrow> bool" where
  "colors_off bld fb d x k =
     (if INVERSE_RGB_DISPLAY_COLORS bld
      then color_pins0 bld \<subseteq> cell0 fb d x k
           \<and> (if CM_5_CHAIN_SUPPORT bld then color_pins1 \<subseteq> cell1 fb d x k else True)
      else cell0 fb d x k \<inter> color_pins0 bld = {}
           \<and> (if CM_5_CHAIN_SUPPORT bld then cell1 fb d x k \<inter> color_pins1 = {} else True))"

text \<open>
  A buffer word as the constructor leaves it: empty, or with every color field of the
  build set under \<^verbatim>\<open>INVERSE_RGB_DISPLAY_COLORS\<close>. The planes below \<open>11 - w\<close> are idle when
  every word of theirs is as the constructor left it.
\<close>

definition idle_word0 :: "build \<Rightarrow> pin set" where
  "idle_word0 bld = (if INVERSE_RGB_DISPLAY_COLORS bld then color_pins0 bld else {})"

definition idle_word1 :: "build \<Rightarrow> pin set" where
  "idle_word1 bld = (if INVERSE_RGB_DISPLAY_COLORS bld then color_pins1 else {})"

definition low_planes_idle :: "build \<Rightarrow> Framebuffer \<Rightarrow> nat \<Rightarrow> bool" where
  "low_planes_idle bld fb w =
     (\<forall>d x k. valid_cell fb d x k \<and> k < int kBitPlanes - int w \<longrightarrow>
        cell0 fb d x k = idle_word0 bld
        \<and> (CM_5_CHAIN_SUPPORT bld \<longrightarrow> cell1 fb d x k = idle_word1 bld))"

text \<open>
  The largest \<^verbatim>\<open>pwm_bits_\<close> under which a call of the sequence wrote bit-planes since the
  last \<^verbatim>\<open>Clear\<close>, for a framebuffer of the given \<open>columns\<close> and \<open>height\<close>: \<open>p\<close> is
  \<^verbatim>\<open>pwm_bits_\<close> before the calls and \<open>w\<close> the largest so far. \<^verbatim>\<open>Fill\<close>, and \<^verbatim>\<open>SetPixel\<close> at
  a position inside the display, write the planes \<open>[11 - p, 11)\<close>; \<^verbatim>\<open>Clear\<close> starts afresh.
  Under \<^verbatim>\<open>INVERSE_RGB_DISPLAY_COLORS\<close> the source has \<^verbatim>\<open>Clear\<close> call \<^verbatim>\<open>Fill(0, 0, 0)\<close>, which
  goes through the planes \<open>[11 - p, 11)\<close> only; a sequence with such a \<^verbatim>\<open>Clear\<close> under a
  \<open>p\<close> below \<open>w\<close> is left apart, and the result is \<open>None\<close>.
\<close>

fun written_pwm :: "build \<Rightarrow> int \<Rightarrow> int \<Rightarrow> mutator list \<Rightarrow> nat \<Rightarrow> nat \<Rightarrow> nat option" where
  "written_pwm bld columns height [] p w = Some w"
| "written_pwm bld columns height (Call_Clear # ms) p w =
     (if INVERSE_RGB_DISPLAY_COLORS bld \<and> p < w then None
      else written_pwm bld columns height ms p 0)"
| "written_pwm bld columns height (Call_Fill r g b # ms) p w =
     written_pwm bld columns height ms p (max w p)"
| "written_pwm bld columns height (Call_SetPixel x y r g b # ms) p w =
     written_pwm bld columns height ms p
       (if x < 0 \<or> x \<ge> columns \<or> y < 0 \<or> y \<ge> height then w else max w p)"
| "written_pwm bld columns height (Call_SetPWMBits v # ms) p w =
     written_pwm bld columns height ms (if unat v < 1 \<or> unat v > kBitPlanes then p else unat v) w"
| "written_pwm bld columns height (Call_SetBrightness v # ms) p w =
     written_pwm bld columns height ms p w"

text \<open>
  The build with \<^verbatim>\<open>INVERSE_RGB_DISPLAY_COLORS\<close> alone, and its framebuffer of 32 rows,
  32 columns and one chain, as the constructor leaves it.
\<close>

definition inverse_build :: build where
  "inverse_build = default_build\<lparr>INVERSE_RGB_DISPLAY_COLORS := True\<rparr>"

definition example_fb_inverse :: Framebuffer where
  "example_fb_inverse = the (Framebuffer_ctor inverse_build 32 32 1)"

text \<open>
  The curve as the spec writes it: \<open>x = c * v / 255\<close>,
  \<open>L = (2^K - 1) * (x / 903.3)\<close> if \<open>x \<le> 8\<close> and \<open>(2^K - 1) * ((x + 16) / 116)^3\<close> otherwise,
  and its truncation to an integer.
\<close>

definition spec_L_value :: "nat \<Rightarrow> nat \<Rightarrow> rat" where
  "spec_L_value c v =
     (let x = of_nat c * of_nat v / 255
      in (2 ^ kBitPlanes - 1) * (if x \<le> 8 then x / (9033 / 10) else ((x + 16) / 116) ^ 3))"

definition spec_L :: "nat \<Rightarrow> nat \<Rightarrow> int" where
  "spec_L c v = \<lfloor>spec_L_value c v\<rfloor>"

section \<open>Results\<close>

text \<open>
  The equations of the loops recurse under an \<open>if\<close> and are unfolded by hand, one
  iteration at a time.
\<close>

declare bitplane_timings_from.simps [simp del]
declare Fill_cols.simps [simp del]
declare Fill_rows.simps [simp del]
declare Fill_planes.simps [simp del]
declare SetPixel_planes.simps [simp del]
declare DumpToMatrix_cols.simps [simp del]
declare DumpToMatrix_planes.simps [simp del]
declare DumpToMatrix_rows.simps [simp del]


subsection \<open>Bit fields, the example framebuffer, offsets\<close>

lemma assign_True [simp]: "assign f True w = insert f w"
  by (simp add: assign_def)

lemma assign_False [simp]: "assign f False w = w - {f}"
  by (simp add: assign_def)

lemma example_fb_eq:
  "Framebuffer_ctor default_build 32 32 1 = Some example_fb"
  by (simp add: example_fb_def Framebuffer_ctor_def Let_def SUB_PANELS_def default_build_def kBitPlanes_def)

lemma example_fb_fields:
  "example_fb = \<lparr>rows_m = 32, parallel_m = 1, height_m = 32, columns_m = 32, pwm_bits_m = 11,
     do_luminance_correct_m = True, brightness_m = 100, double_rows_m = 16, row_mask_m = 15,
     bitplane_buffer_0 = replicate 5632 {}, bitplane_buffer_1 = []\<rparr>"
  by (simp add: example_fb_def Framebuffer_ctor_def Let_def SUB_PANELS_def default_build_def
      kBitPlanes_def Clear_def IoBits_default_def)

lemma ValueAt_unique:
  assumes "ValueAt fb d x k = ValueAt fb d' x' k'"
    and "0 \<le> x" "x < columns_m fb" "0 \<le> x'" "x' < columns_m fb"
    and "0 \<le> k" "k < int kBitPlanes" "0 \<le> k'" "k' < int kBitPlanes"
  shows "d = d' \<and> x = x' \<and> k = k'"
proof -
  let ?c = "columns_m fb"
  have e: "(d * 11 + k) * ?c + x = (d' * 11 + k') * ?c + x'"
    using assms(1) by (simp add: ValueAt_def kBitPlanes_def algebra_simps)
  have c: "0 < ?c" using assms(2,3) by linarith
  have "((d * 11 + k) * ?c + x) div ?c = d * 11 + k"
    using assms(2,3) c by simp
  moreover have "((d' * 11 + k') * ?c + x') div ?c = d' * 11 + k'"
    using assms(4,5) c by simp
  ultimately have q: "d * 11 + k = d' * 11 + k'"
    using e by simp
  with e have x: "x = x'" by simp
  have "(d * 11 + k) div 11 = d" "(d' * 11 + k') div 11 = d'"
    using assms(6-9) by (simp_all add: kBitPlanes_def)
  with q have d: "d = d'" by simp
  with q have "k = k'" by simp
  with x d show ?thesis by simp
qed

lemma ValueAt_range:
  assumes "valid_cell fb d x k"
  shows "0 \<le> ValueAt fb d x k \<and> ValueAt fb d x k < double_rows_m fb * columns_m fb * int kBitPlanes"
proof -
  let ?c = "columns_m fb"
  from assms have h: "0 \<le> d" "d < double_rows_m fb" "0 \<le> x" "x < ?c" "0 \<le> k" "k \<le> 10"
    by (simp_all add: valid_cell_def kBitPlanes_def)
  have v: "ValueAt fb d x k = (d * 11 + k) * ?c + x"
    by (simp add: ValueAt_def kBitPlanes_def algebra_simps)
  have "0 \<le> (d * 11 + k) * ?c" using h by simp
  then have lo: "0 \<le> ValueAt fb d x k" using h v by simp
  have "d * 11 + k + 1 \<le> double_rows_m fb * 11" using h by simp
  then have "(d * 11 + k + 1) * ?c \<le> double_rows_m fb * 11 * ?c"
    using h by (intro mult_right_mono) simp_all
  then have "(d * 11 + k) * ?c + ?c \<le> double_rows_m fb * ?c * 11"
    by (simp add: algebra_simps)
  then have "ValueAt fb d x k < double_rows_m fb * ?c * 11"
    using v h by simp
  with lo show ?thesis by (simp add: kBitPlanes_def)
qed

subsection \<open>The pulse table\<close>

lemma bitplane_timings_from_eq:
  "bitplane_timings_from b acc = acc @ map (\<lambda>k. push_bit k kBaseTimeNanos) [b..<kBitPlanes]"
proof (induction b acc rule: bitplane_timings_from.induct)
  case (1 b acc)
  show ?case
  proof (cases "b < kBitPlanes")
    case True
    then show ?thesis
      using "1.IH" by (subst bitplane_timings_from.simps) (simp add: upt_conv_Cons)
  next
    case False
    then show ?thesis by (subst bitplane_timings_from.simps) simp
  qed
qed

text \<open>
  C10. When \<^verbatim>\<open>InitGPIO\<close> initializes the pulser (the global was \<^verbatim>\<open>NULL\<close> and the
  assertions hold), the table handed to \<^verbatim>\<open>PinPulser::Create\<close> has 11 entries, and entry
  \<open>k\<close> is \<^verbatim>\<open>kBaseTimeNanos << k\<close>, that is \<open>130 * 2 ^ k\<close> nanoseconds.
\<close>

theorem pulse_table:
  assumes "InitGPIO bld io rows parallel None = Some (Some pulser, masks)" and "k < 11"
  shows "length (pulser_timings pulser) = 11
    \<and> pulser_timings pulser ! k = push_bit k kBaseTimeNanos
    \<and> pulser_timings pulser ! k = 130 * 2 ^ k"
proof -
  have "pulser_timings pulser = bitplane_timings_from 0 []"
    using assms(1) by (auto simp: InitGPIO_def Let_def split: if_splits)
  then show ?thesis
    using assms(2)
    by (simp add: bitplane_timings_from_eq kBitPlanes_def kBaseTimeNanos_def push_bit_eq_mult)
qed

theorem pulse_table_witness:
  "\<exists>p masks. InitGPIO default_build all_pins_gpio 32 1 None = Some (Some p, masks)
     \<and> (3::nat) < 11 \<and> length (pulser_timings p) = 11 \<and> pulser_timings p ! 3 = 1040"
proof -
  obtain p masks where h: "InitGPIO default_build all_pins_gpio 32 1 None = Some (Some p, masks)"
    by (simp add: InitGPIO_def Let_def default_build_def all_pins_gpio_def)
  have k: "(3::nat) < 11" by simp
  from pulse_table [OF h k] h show ?thesis by simp
qed

subsection \<open>\<^verbatim>\<open>SetPixel\<close> out of range\<close>

text \<open>
  C8. With \<^verbatim>\<open>height_ = rows_ * parallel_\<close>, as the constructor sets it, \<^verbatim>\<open>SetPixel(x, y, r, g, b)\<close>
  with \<open>x < 0\<close>, \<open>x \<ge> columns\<close>, \<open>y < 0\<close> or \<open>y \<ge> rows * parallel\<close> returns the object as
  it was: both buffers and every other member are unchanged.
\<close>

theorem SetPixel_out_of_range:
  assumes "height_m fb = rows_m fb * parallel_m fb"
    and "x < 0 \<or> x \<ge> columns_m fb \<or> y < 0 \<or> y \<ge> rows_m fb * parallel_m fb"
  shows "SetPixel bld x y r g b fb = fb"
  using assms by (auto simp: SetPixel_def)

theorem SetPixel_out_of_range_witness:
  "height_m example_fb = rows_m example_fb * parallel_m example_fb
   \<and> rows_m example_fb * parallel_m example_fb \<le> 10000
   \<and> SetPixel default_build 0 10000 255 255 255 example_fb = example_fb
   \<and> SetPixel default_build (- 1) 0 255 255 255 example_fb = example_fb"
proof -
  have h: "height_m example_fb = rows_m example_fb * parallel_m example_fb"
    by (simp add: example_fb_fields)
  have y: "(0::int) < 0 \<or> 0 \<ge> columns_m example_fb \<or> (10000::int) < 0
           \<or> 10000 \<ge> rows_m example_fb * parallel_m example_fb"
    by (simp add: example_fb_fields)
  have x: "(- 1::int) < 0 \<or> - 1 \<ge> columns_m example_fb \<or> (0::int) < 0
           \<or> 0 \<ge> rows_m example_fb * parallel_m example_fb"
    by simp
  show ?thesis
    using SetPixel_out_of_range [OF h y] SetPixel_out_of_range [OF h x]
    by (simp add: example_fb_fields)
qed

subsection \<open>The calls of \<^verbatim>\<open>DumpToMatrix\<close>\<close>

lemma set_row_address_eq:
  "set_row_address d ra = (ra - address_lines) \<union> row_address_of d"
  by (auto simp: set_row_address_def assign_def row_address_of_def address_lines_def
      bit_iff_odd_drop_bit Let_def)

lemma row_address_of_subset: "row_address_of d \<subseteq> address_lines"
  by (auto simp: row_address_of_def address_lines_def)

lemma locals_row_mask [simp]: "row_mask (DumpToMatrix_locals bld fb) = address_lines"
  by (auto simp: DumpToMatrix_locals_def Let_def IoBits_default_def address_lines_def)

lemma locals_strobe [simp]: "strobe_bits (DumpToMatrix_locals bld fb) = {strobe}"
  by (simp add: DumpToMatrix_locals_def Let_def IoBits_default_def)

lemma locals_pwm [simp]: "pwm_to_show (DumpToMatrix_locals bld fb) = int (pwm_bits_m fb)"
  by (simp add: DumpToMatrix_locals_def Let_def)

lemma locals_clock:
  "clock_bits (DumpToMatrix_locals bld fb) =
     (if PI_REV1_RGB_PINOUT bld then {clock, clock_rev1, clock_rev2} else {clock})"
  by (auto simp: DumpToMatrix_locals_def Let_def IoBits_default_def)

lemma DumpToMatrix_planes_step:
  "b < int kBitPlanes \<Longrightarrow> strobe_bits L = {strobe} \<Longrightarrow>
   DumpToMatrix_planes bld fb L d b = plane_events bld fb L d b @ DumpToMatrix_planes bld fb L d (b + 1)"
  by (subst DumpToMatrix_planes.simps) (simp add: plane_events_def)

lemma DumpToMatrix_planes_eq:
  "strobe_bits L = {strobe} \<Longrightarrow>
   DumpToMatrix_planes bld fb L d b = concat (map (plane_events bld fb L d) [b..int kBitPlanes - 1])"
proof (induction bld fb L d b rule: DumpToMatrix_planes.induct)
  case (1 bld fb L d_row b)
  show ?case
  proof (cases "b < int kBitPlanes")
    case True
    then have "[b..int kBitPlanes - 1] = b # [b + 1..int kBitPlanes - 1]"
      by (simp add: upto_rec1)
    then show ?thesis
      using True "1.IH" "1.prems" by (simp add: DumpToMatrix_planes_step)
  next
    case False
    then show ?thesis by (subst DumpToMatrix_planes.simps) simp
  qed
qed

lemma DumpToMatrix_rows_step:
  assumes "int d < double_rows_m fb" and "ra \<subseteq> address_lines" and "row_mask L = address_lines"
  shows "DumpToMatrix_rows bld fb L d ra =
           row_events bld fb L d @ DumpToMatrix_rows bld fb L (d + 1) (row_address_of d)"
proof -
  have "set_row_address d ra = row_address_of d"
    using assms(2) row_address_of_subset by (auto simp: set_row_address_eq)
  then show ?thesis
    using assms by (subst DumpToMatrix_rows.simps) (simp add: row_events_def Let_def)
qed

lemma DumpToMatrix_rows_eq:
  "ra \<subseteq> address_lines \<Longrightarrow> row_mask L = address_lines \<Longrightarrow>
   DumpToMatrix_rows bld fb L d ra = concat (map (row_events bld fb L) [d..<nat (double_rows_m fb)])"
proof (induction bld fb L d ra rule: DumpToMatrix_rows.induct)
  case (1 bld fb L d_row row_address)
  show ?case
  proof (cases "int d_row < double_rows_m fb")
    case True
    then have "[d_row..<nat (double_rows_m fb)] = d_row # [d_row + 1..<nat (double_rows_m fb)]"
      by (simp add: upt_conv_Cons)
    moreover have "set_row_address d_row row_address = row_address_of d_row"
      using "1.prems"(1) row_address_of_subset by (auto simp: set_row_address_eq)
    ultimately show ?thesis
      using True "1.IH" [OF True refl] "1.prems" row_address_of_subset
      by (simp add: DumpToMatrix_rows_step)
  next
    case False
    then show ?thesis by (subst DumpToMatrix_rows.simps) simp
  qed
qed

lemma DumpToMatrix_frame:
  "double_rows_m fb \<le> 255 \<Longrightarrow>
   DumpToMatrix bld fb =
     Some (concat (map (row_events bld fb (DumpToMatrix_locals bld fb)) [0..<nat (double_rows_m fb)]))"
  by (simp add: DumpToMatrix_def DumpToMatrix_rows_eq IoBits_default_def)

lemma pulses_append [simp]: "pulses (xs @ ys) = pulses xs @ pulses ys"
  by (induction xs rule: pulses.induct) simp_all

lemma pulses_cols [simp]: "pulses (DumpToMatrix_cols bld fb L col p) = []"
proof (induction bld fb L col p rule: DumpToMatrix_cols.induct)
  case (1 bld fb L col row_data)
  then show ?case by (subst DumpToMatrix_cols.simps) simp
qed

lemma pulses_plane_events [simp]: "pulses (plane_events bld fb L d k) = [k]"
  by (simp add: plane_events_def)

lemma pulses_concat_planes: "pulses (concat (map (plane_events bld fb L d) ks)) = ks"
  by (induction ks) simp_all

lemma locals_color_clk_mask0_address [simp]:
  "color_clk_mask0 (DumpToMatrix_locals bld fb) \<inter> address_lines = {}"
  by (auto simp: DumpToMatrix_locals_def Let_def IoBits_default_def address_lines_def)

lemma locals_clock_address [simp]:
  "clock_bits (DumpToMatrix_locals bld fb) \<inter> address_lines = {}"
  by (auto simp: locals_clock address_lines_def)

lemma cols_masks:
  "e \<in> set (DumpToMatrix_cols bld fb L col p) \<Longrightarrow>
   event_mask0 e = color_clk_mask0 L \<or> event_mask0 e = clock_bits L"
proof (induction bld fb L col p rule: DumpToMatrix_cols.induct)
  case (1 bld fb L col row_data)
  from "1.prems" show ?case
    by (subst (asm) DumpToMatrix_cols.simps) (auto split: if_splits dest: "1.IH")
qed

lemma plane_events_masks:
  "e \<in> set (plane_events bld fb L d k) \<Longrightarrow>
   event_mask0 e \<in> {color_clk_mask0 L, clock_bits L, {strobe}, {}}"
  by (auto simp: plane_events_def dest: cols_masks)

lemma plane_events_address:
  "e \<in> set (plane_events bld fb (DumpToMatrix_locals bld g) d k) \<Longrightarrow>
   event_mask0 e \<inter> address_lines = {}"
proof -
  assume "e \<in> set (plane_events bld fb (DumpToMatrix_locals bld g) d k)"
  then have "event_mask0 e \<in> {color_clk_mask0 (DumpToMatrix_locals bld g),
      clock_bits (DumpToMatrix_locals bld g), {strobe}, {}}"
    by (rule plane_events_masks)
  moreover have "{strobe} \<inter> address_lines = {}"
    by (simp add: address_lines_def)
  moreover have "{} \<inter> address_lines = ({} :: pin set)"
    by simp
  ultimately show ?thesis
    using locals_color_clk_mask0_address [of bld g] locals_clock_address [of bld g]
    by (elim insertE emptyE) simp_all
qed

lemma locals_strobe_free:
  "strobe \<notin> color_clk_mask0 (DumpToMatrix_locals bld fb)"
  "strobe \<notin> clock_bits (DumpToMatrix_locals bld fb)"
  by (auto simp: DumpToMatrix_locals_def Let_def IoBits_default_def)

lemma cols_strobe_free:
  assumes "e \<in> set (DumpToMatrix_cols bld g (DumpToMatrix_locals bld fb) col p)"
  shows "strobe \<notin> event_mask0 e"
  using cols_masks [OF assms] locals_strobe_free [of bld fb] by auto

lemma pulses_row_events:
  "strobe_bits L = {strobe} \<Longrightarrow>
   pulses (row_events bld g L d) = [int kBitPlanes - pwm_to_show L..int kBitPlanes - 1]"
  by (simp add: row_events_def DumpToMatrix_planes_eq pulses_concat_planes)

lemma length_upto_planes: "m \<le> 11 \<Longrightarrow> length [11 - int m..10] = m"
  by simp

lemma pulses_DumpToMatrix_planes:
  "pulses (DumpToMatrix_planes bld g L d b) = [b..int kBitPlanes - 1]"
proof (induction bld g L d b rule: DumpToMatrix_planes.induct)
  case (1 bld fb L d_row b)
  show ?case
  proof (cases "b < int kBitPlanes")
    case True
    then have "[b..int kBitPlanes - 1] = b # [b + 1..int kBitPlanes - 1]"
      by (simp add: upto_rec1)
    then show ?thesis
      using True "1.IH" by (subst DumpToMatrix_planes.simps) simp
  next
    case False
    then show ?thesis by (subst DumpToMatrix_planes.simps) simp
  qed
qed

lemma pulses_DumpToMatrix_rows:
  "pulses (DumpToMatrix_rows bld g L d ra) =
     concat (replicate (nat (double_rows_m g) - d)
               [int kBitPlanes - pwm_to_show L..int kBitPlanes - 1])"
proof (induction bld g L d ra rule: DumpToMatrix_rows.induct)
  case (1 bld fb L d_row row_address)
  show ?case
  proof (cases "int d_row < double_rows_m fb")
    case True
    then have "nat (double_rows_m fb) - d_row = Suc (nat (double_rows_m fb) - (d_row + 1))"
      by linarith
    then show ?thesis
      using True "1.IH" [OF True refl]
      by (subst DumpToMatrix_rows.simps) (simp add: Let_def pulses_DumpToMatrix_planes)
  next
    case False
    then show ?thesis by (subst DumpToMatrix_rows.simps) simp
  qed
qed

text \<open>
  C9. With at most 255 double rows, \<^verbatim>\<open>DumpToMatrix\<close> returns, and its calls are those of
  the double rows \<open>0, 1, ...\<close> in turn. The calls of double row \<open>d\<close> start with one
  masked write of the row address under the mask \<open>{a, b, c, d, e}\<close>, followed by the calls
  of the planes and the final wait; no call of a plane has an address line in its mask.
  The row address has \<open>a\<close> set exactly when bit 0 of \<open>d\<close> is set, \<open>b\<close> for bit 1, \<open>c\<close> for
  bit 2, \<open>d\<close> for bit 3, \<open>e\<close> for bit 4, and nothing else.
\<close>

theorem DumpToMatrix_row_address:
  assumes "double_rows_m fb \<le> 255" and "L = DumpToMatrix_locals bld fb"
  shows "DumpToMatrix bld fb = Some (concat (map (row_events bld fb L) [0..<nat (double_rows_m fb)]))
    \<and> (\<forall>d. row_events bld fb L d =
             WriteMaskedBits (row_address_of d) {addr_a, addr_b, addr_c, addr_d, addr_e} {} {}
             # concat (map (plane_events bld fb L d) [int kBitPlanes - pwm_to_show L..10])
             @ [WaitPulseFinished])
    \<and> (\<forall>d k. \<forall>e \<in> set (plane_events bld fb L d k).
             event_mask0 e \<inter> {addr_a, addr_b, addr_c, addr_d, addr_e} = {})
    \<and> (\<forall>d. (addr_a \<in> row_address_of d) = bit d 0 \<and> (addr_b \<in> row_address_of d) = bit d 1
           \<and> (addr_c \<in> row_address_of d) = bit d 2 \<and> (addr_d \<in> row_address_of d) = bit d 3
           \<and> (addr_e \<in> row_address_of d) = bit d 4
           \<and> row_address_of d \<subseteq> {addr_a, addr_b, addr_c, addr_d, addr_e})"
proof -
  have 1: "DumpToMatrix bld fb = Some (concat (map (row_events bld fb L) [0..<nat (double_rows_m fb)]))"
    using assms by (simp add: DumpToMatrix_frame)
  have 2: "row_events bld fb L d =
             WriteMaskedBits (row_address_of d) {addr_a, addr_b, addr_c, addr_d, addr_e} {} {}
             # concat (map (plane_events bld fb L d) [int kBitPlanes - pwm_to_show L..10])
             @ [WaitPulseFinished]" for d
    using assms(2) by (simp add: row_events_def DumpToMatrix_planes_eq address_lines_def kBitPlanes_def)
  have 3: "event_mask0 e \<inter> {addr_a, addr_b, addr_c, addr_d, addr_e} = {}"
    if "e \<in> set (plane_events bld fb L d k)" for d k e
    using that plane_events_address [of e bld fb fb d k] assms(2) by (simp add: address_lines_def)
  have 4: "(addr_a \<in> row_address_of d) = bit d 0 \<and> (addr_b \<in> row_address_of d) = bit d 1
           \<and> (addr_c \<in> row_address_of d) = bit d 2 \<and> (addr_d \<in> row_address_of d) = bit d 3
           \<and> (addr_e \<in> row_address_of d) = bit d 4
           \<and> row_address_of d \<subseteq> {addr_a, addr_b, addr_c, addr_d, addr_e}" for d
    by (auto simp: row_address_of_def split: if_splits)
  show ?thesis
    by (intro conjI allI ballI 1 2 3 4 [THEN conjunct1] 4 [THEN conjunct2])
qed

theorem DumpToMatrix_row_address_witness:
  "double_rows_m example_fb \<le> 255
   \<and> DumpToMatrix default_build example_fb =
       Some (concat (map (row_events default_build example_fb
                            (DumpToMatrix_locals default_build example_fb)) [0..<16]))
   \<and> addr_a \<in> row_address_of 5 \<and> addr_b \<notin> row_address_of 5 \<and> addr_c \<in> row_address_of 5
   \<and> addr_d \<notin> row_address_of 5 \<and> addr_e \<notin> row_address_of 5"
proof -
  have b: "double_rows_m example_fb \<le> 255"
    by (simp add: example_fb_fields)
  have n: "nat (double_rows_m example_fb) = 16"
    by (simp add: example_fb_fields)
  note t = DumpToMatrix_row_address [OF b refl, of default_build]
  have "DumpToMatrix default_build example_fb =
       Some (concat (map (row_events default_build example_fb
                            (DumpToMatrix_locals default_build example_fb)) [0..<16]))"
    using t [THEN conjunct1] by (simp only: n)
  moreover have "addr_a \<in> row_address_of 5 \<and> addr_b \<notin> row_address_of 5
      \<and> addr_c \<in> row_address_of 5 \<and> addr_d \<notin> row_address_of 5 \<and> addr_e \<notin> row_address_of 5"
    using t [THEN conjunct2, THEN conjunct2, THEN conjunct2, THEN spec, of 5]
    by (simp add: bit_numeral_simps bit_0)
  ultimately show ?thesis
    using b by simp
qed

text \<open>
  C6. When \<^verbatim>\<open>SetPWMBits(m)\<close> succeeds, \<open>m\<close> is in \<open>[1, 11]\<close>, and the next \<^verbatim>\<open>DumpToMatrix\<close>
  copies \<open>m\<close> into its local \<^verbatim>\<open>pwm_to_show\<close> before the loops. Its calls are those of the
  double rows in turn; the calls of a double row are the row-address write, then for each
  plane \<open>k\<close> of \<open>11 - m, ..., 10\<close> in increasing order the column writes (none of them a
  pulse or a strobe) followed by clear, wait, strobe set, strobe clear and
  \<^verbatim>\<open>SendPulse(k)\<close>, then the final wait: \<open>m\<close> pulses per double row.

  The loops read the plane count from the local only. With the locals \<open>L\<close> that were taken
  from the object after \<^verbatim>\<open>SetPWMBits(m)\<close>, the row loop of the code is run on an arbitrary
  object state \<open>g\<close>, whatever its \<^verbatim>\<open>pwm_bits_\<close>: the frame that \<^verbatim>\<open>DumpToMatrix\<close> returns is
  this loop on the object itself; on every \<open>g\<close> the loop emits, for each of the double rows
  of \<open>g\<close>, the row-address write, the calls of the planes \<open>11 - m, ..., 10\<close> and the final
  wait; and on every \<open>g\<close>, from every double row \<open>d\<close> and row address on, the pulses of the
  rest of the frame are those of the planes \<open>11 - m, ..., 10\<close>, once for each remaining
  double row.
\<close>

theorem DumpToMatrix_emits_pwm_planes:
  assumes "SetPWMBits m fb = (True, fb')" and "double_rows_m fb \<le> 255"
    and "L = DumpToMatrix_locals bld fb'"
  shows "1 \<le> unat m \<and> unat m \<le> 11 \<and> pwm_to_show L = int (unat m)
    \<and> DumpToMatrix bld fb' = Some (concat (map (row_events bld fb' L) [0..<nat (double_rows_m fb')]))
    \<and> (\<forall>g d. row_events bld g L d =
               WriteMaskedBits (row_address_of d) address_lines {} {}
               # concat (map (plane_events bld g L d) [11 - int (unat m)..10])
               @ [WaitPulseFinished])
    \<and> (\<forall>g d k. \<exists>cols. plane_events bld g L d k =
               cols @ [ClearBits (color_clk_mask0 L)
                         (if CM_5_CHAIN_SUPPORT bld then color_clk_mask1 L else {}),
                       WaitPulseFinished, SetBits {strobe} {}, ClearBits {strobe} {}, SendPulse k]
             \<and> pulses cols = [] \<and> (\<forall>e \<in> set cols. strobe \<notin> event_mask0 e))
    \<and> (\<forall>g d. pulses (row_events bld g L d) = [11 - int (unat m)..10])
    \<and> length [11 - int (unat m)..10] = unat m
    \<and> DumpToMatrix bld fb' = Some (DumpToMatrix_rows bld fb' L 0 IoBits_default)
    \<and> (\<forall>g. DumpToMatrix_rows bld g L 0 IoBits_default =
             concat (map (\<lambda>d. WriteMaskedBits (row_address_of d) address_lines {} {}
                              # concat (map (plane_events bld g L d) [11 - int (unat m)..10])
                              @ [WaitPulseFinished])
                       [0..<nat (double_rows_m g)]))
    \<and> (\<forall>g d ra. pulses (DumpToMatrix_rows bld g L d ra) =
             concat (replicate (nat (double_rows_m g) - d) [11 - int (unat m)..10]))"
proof -
  from assms(1) have m: "1 \<le> unat m" "unat m \<le> 11" and fb': "fb' = fb\<lparr>pwm_bits_m := unat m\<rparr>"
    by (auto simp: SetPWMBits_def kBitPlanes_def split: if_splits)
  have p: "pwm_to_show L = int (unat m)"
    using assms(3) fb' by simp
  have s: "strobe_bits L = {strobe}"
    using assms(3) by simp
  have r: "row_mask L = address_lines"
    using assms(3) by simp
  have 1: "DumpToMatrix bld fb' = Some (concat (map (row_events bld fb' L) [0..<nat (double_rows_m fb')]))"
    using assms(2,3) fb' by (simp add: DumpToMatrix_frame)
  have 2: "row_events bld g L d =
               WriteMaskedBits (row_address_of d) address_lines {} {}
               # concat (map (plane_events bld g L d) [11 - int (unat m)..10])
               @ [WaitPulseFinished]" for g d
    using s p by (simp add: row_events_def DumpToMatrix_planes_eq kBitPlanes_def)
  have 3: "\<exists>cols. plane_events bld g L d k =
               cols @ [ClearBits (color_clk_mask0 L)
                         (if CM_5_CHAIN_SUPPORT bld then color_clk_mask1 L else {}),
                       WaitPulseFinished, SetBits {strobe} {}, ClearBits {strobe} {}, SendPulse k]
             \<and> pulses cols = [] \<and> (\<forall>e \<in> set cols. strobe \<notin> event_mask0 e)" for g d k
  proof (intro exI conjI ballI)
    show "plane_events bld g L d k =
            DumpToMatrix_cols bld g L 0 (ValueAt g (int d) 0 k)
            @ [ClearBits (color_clk_mask0 L)
                 (if CM_5_CHAIN_SUPPORT bld then color_clk_mask1 L else {}),
               WaitPulseFinished, SetBits {strobe} {}, ClearBits {strobe} {}, SendPulse k]"
      by (simp add: plane_events_def)
    show "pulses (DumpToMatrix_cols bld g L 0 (ValueAt g (int d) 0 k)) = []"
      by simp
    show "strobe \<notin> event_mask0 e"
      if "e \<in> set (DumpToMatrix_cols bld g L 0 (ValueAt g (int d) 0 k))" for e
      using that unfolding assms(3) by (rule cols_strobe_free)
  qed
  have 4: "pulses (row_events bld g L d) = [11 - int (unat m)..10]" for g d
    using s p by (simp add: pulses_row_events kBitPlanes_def)
  have 5: "length [11 - int (unat m)..10] = unat m"
    using m by simp
  have 6: "DumpToMatrix bld fb' = Some (DumpToMatrix_rows bld fb' L 0 IoBits_default)"
    using assms(2,3) fb' by (simp add: DumpToMatrix_def)
  have "DumpToMatrix_rows bld g L 0 IoBits_default =
          concat (map (row_events bld g L) [0..<nat (double_rows_m g)])" for g
    using r by (intro DumpToMatrix_rows_eq) (simp_all add: IoBits_default_def)
  also have "row_events bld g L =
      (\<lambda>d. WriteMaskedBits (row_address_of d) address_lines {} {}
            # concat (map (plane_events bld g L d) [11 - int (unat m)..10])
            @ [WaitPulseFinished])" for g
    by (rule ext) (rule 2)
  finally have 7: "DumpToMatrix_rows bld g L 0 IoBits_default =
             concat (map (\<lambda>d. WriteMaskedBits (row_address_of d) address_lines {} {}
                              # concat (map (plane_events bld g L d) [11 - int (unat m)..10])
                              @ [WaitPulseFinished])
                       [0..<nat (double_rows_m g)])" for g .
  have 8: "pulses (DumpToMatrix_rows bld g L d ra) =
             concat (replicate (nat (double_rows_m g) - d) [11 - int (unat m)..10])" for g d ra
    using p by (simp add: pulses_DumpToMatrix_rows kBitPlanes_def)
  show ?thesis
    by (intro conjI allI m p 1 2 3 4 5 6 7 8)
qed

text \<open>
  An instance: the locals are taken under 3 PWM bits and the loops run on the example
  framebuffer, whose \<^verbatim>\<open>pwm_bits_\<close> is 11; every one of the 16 double rows has the pulses of
  the planes 8, 9 and 10.
\<close>

theorem DumpToMatrix_emits_pwm_planes_witness:
  "SetPWMBits 3 example_fb = (True, example_fb\<lparr>pwm_bits_m := 3\<rparr>)
   \<and> double_rows_m example_fb \<le> 255
   \<and> DumpToMatrix default_build (example_fb\<lparr>pwm_bits_m := 3\<rparr>) =
       Some (concat (map (row_events default_build (example_fb\<lparr>pwm_bits_m := 3\<rparr>)
                            (DumpToMatrix_locals default_build (example_fb\<lparr>pwm_bits_m := 3\<rparr>)))
                      [0..<16]))
   \<and> pulses (row_events default_build example_fb
               (DumpToMatrix_locals default_build (example_fb\<lparr>pwm_bits_m := 3\<rparr>)) 7)
       = [8, 9, 10]
   \<and> pwm_bits_m example_fb = 11
   \<and> pulses (DumpToMatrix_rows default_build example_fb
               (DumpToMatrix_locals default_build (example_fb\<lparr>pwm_bits_m := 3\<rparr>)) 0 IoBits_default)
       = concat (replicate 16 [8, 9, 10])"
proof -
  have a: "SetPWMBits 3 example_fb = (True, example_fb\<lparr>pwm_bits_m := 3\<rparr>)"
    by (simp add: SetPWMBits_def kBitPlanes_def)
  have b: "double_rows_m example_fb \<le> 255"
    by (simp add: example_fb_fields)
  have u: "[8..10] = [8, 9, 10 :: int]"
    by (simp add: upto_rec1)
  have n: "nat (double_rows_m example_fb) = 16" "pwm_bits_m example_fb = 11"
    by (simp_all add: example_fb_fields)
  note t = DumpToMatrix_emits_pwm_planes [OF a b refl, of default_build]
  have 1: "DumpToMatrix default_build (example_fb\<lparr>pwm_bits_m := 3\<rparr>) =
       Some (concat (map (row_events default_build (example_fb\<lparr>pwm_bits_m := 3\<rparr>)
                            (DumpToMatrix_locals default_build (example_fb\<lparr>pwm_bits_m := 3\<rparr>)))
                      [0..<16]))"
    using t [THEN conjunct2, THEN conjunct2, THEN conjunct2, THEN conjunct1] n(1) by simp
  have 2: "pulses (row_events default_build example_fb
               (DumpToMatrix_locals default_build (example_fb\<lparr>pwm_bits_m := 3\<rparr>)) 7) = [8, 9, 10]"
    using t [THEN conjunct2, THEN conjunct2, THEN conjunct2, THEN conjunct2, THEN conjunct2,
             THEN conjunct2, THEN conjunct1, THEN spec, THEN spec, of example_fb 7] u
    by simp
  have 3: "pulses (DumpToMatrix_rows default_build example_fb
               (DumpToMatrix_locals default_build (example_fb\<lparr>pwm_bits_m := 3\<rparr>)) 0 IoBits_default)
       = concat (replicate 16 [8, 9, 10])"
    using t [THEN conjunct2, THEN conjunct2, THEN conjunct2, THEN conjunct2, THEN conjunct2,
             THEN conjunct2, THEN conjunct2, THEN conjunct2, THEN conjunct2, THEN conjunct2,
             THEN spec, THEN spec, THEN spec, of example_fb 0 IoBits_default] u n(1)
    by simp
  show ?thesis
    by (intro conjI a b 1 2 3 n(2))
qed

text \<open>
  C2, at the default build with 32 rows, 32 columns and one chain, on a backend that
  supports every pin: \<^verbatim>\<open>InitGPIO\<close> declares the single mask \<^verbatim>\<open>b0\<close>, which does not hold
  the address line \<open>e\<close> (16 double rows need \<open>a\<close> to \<open>d\<close> only), and the first call of
  \<^verbatim>\<open>DumpToMatrix\<close> is the row-address write under the mask \<open>{a, b, c, d, e}\<close>, which is
  not contained in the declared pins.
\<close>

theorem row_mask_exceeds_declared_pins:
  "(\<exists>p. InitGPIO default_build all_pins_gpio 32 1 None = Some (Some p, [InitGPIO_b0 default_build 32 1]))
   \<and> addr_e \<notin> InitGPIO_b0 default_build 32 1
   \<and> Framebuffer_ctor default_build 32 32 1 = Some example_fb
   \<and> (\<exists>evs. DumpToMatrix default_build example_fb =
         Some (WriteMaskedBits {} {addr_a, addr_b, addr_c, addr_d, addr_e} {} {} # evs))
   \<and> \<not> event_mask0 (WriteMaskedBits {} {addr_a, addr_b, addr_c, addr_d, addr_e} {} {})
         \<subseteq> \<Union> (set [InitGPIO_b0 default_build 32 1])"
proof -
  have 1: "\<exists>p. InitGPIO default_build all_pins_gpio 32 1 None = Some (Some p, [InitGPIO_b0 default_build 32 1])"
    by (simp add: InitGPIO_def Let_def default_build_def all_pins_gpio_def)
  have 2: "addr_e \<notin> InitGPIO_b0 default_build 32 1"
    by (simp add: InitGPIO_b0_def Let_def default_build_def)
  have "[0..<nat (double_rows_m example_fb)] = 0 # [1..<16]"
    by (simp add: example_fb_fields upt_conv_Cons)
  then have 3: "\<exists>evs. DumpToMatrix default_build example_fb =
         Some (WriteMaskedBits {} {addr_a, addr_b, addr_c, addr_d, addr_e} {} {} # evs)"
    by (simp add: DumpToMatrix_frame example_fb_fields row_events_def row_address_of_def
        address_lines_def)
  from 1 2 3 show ?thesis
    by (simp add: example_fb_eq)
qed

text \<open>
  The calls of the planes, by contrast, use declared pins only, for every geometry: their
  masks are the color and clock mask, the clock bits, the strobe bit or empty.
\<close>

lemma locals_masks_declared:
  "color_clk_mask0 (DumpToMatrix_locals bld fb) \<subseteq> InitGPIO_b0 bld rows (parallel_m fb)"
  "clock_bits (DumpToMatrix_locals bld fb) \<subseteq> InitGPIO_b0 bld rows (parallel_m fb)"
  "{strobe} \<subseteq> InitGPIO_b0 bld rows (parallel_m fb)"
  "color_clk_mask1 (DumpToMatrix_locals bld fb) \<subseteq> InitGPIO_b1 bld (parallel_m fb)"
  by (auto simp: DumpToMatrix_locals_def InitGPIO_b0_def InitGPIO_b1_def Let_def IoBits_default_def)

lemma cols_masks1:
  "e \<in> set (DumpToMatrix_cols bld fb L col p) \<Longrightarrow>
   event_mask1 e = (if CM_5_CHAIN_SUPPORT bld then color_clk_mask1 L else {}) \<or> event_mask1 e = {}"
proof (induction bld fb L col p rule: DumpToMatrix_cols.induct)
  case (1 bld fb L col row_data)
  from "1.prems" show ?case
    by (subst (asm) DumpToMatrix_cols.simps) (auto split: if_splits dest: "1.IH")
qed

lemma plane_events_masks1:
  "e \<in> set (plane_events bld fb L d k) \<Longrightarrow>
   event_mask1 e = (if CM_5_CHAIN_SUPPORT bld then color_clk_mask1 L else {}) \<or> event_mask1 e = {}"
  by (auto simp: plane_events_def dest: cols_masks1)

lemma plane_events_declared:
  assumes "e \<in> set (plane_events bld g (DumpToMatrix_locals bld fb) d k)"
  shows "event_mask0 e \<subseteq> InitGPIO_b0 bld rows (parallel_m fb)"
    and "event_mask1 e \<subseteq> InitGPIO_b1 bld (parallel_m fb)"
proof -
  have "event_mask0 e \<in> {color_clk_mask0 (DumpToMatrix_locals bld fb),
      clock_bits (DumpToMatrix_locals bld fb), {strobe}, {}}"
    using assms by (rule plane_events_masks)
  then show "event_mask0 e \<subseteq> InitGPIO_b0 bld rows (parallel_m fb)"
    using locals_masks_declared(1,2,3) [where bld = bld and fb = fb and rows = rows]
    by (elim insertE emptyE) simp_all
  have "event_mask1 e = (if CM_5_CHAIN_SUPPORT bld then color_clk_mask1 (DumpToMatrix_locals bld fb) else {})
        \<or> event_mask1 e = {}"
    using assms by (rule plane_events_masks1)
  then show "event_mask1 e \<subseteq> InitGPIO_b1 bld (parallel_m fb)"
    using locals_masks_declared(4) [where bld = bld and fb = fb] by (auto split: if_splits)
qed

subsection \<open>\<^verbatim>\<open>SetPWMBits\<close>\<close>

text \<open>
  C7. \<^verbatim>\<open>SetPWMBits(v)\<close> returns failure exactly when \<open>v < 1\<close> or \<open>v > 11\<close>; on failure the
  whole framebuffer object is unchanged; on success \<^verbatim>\<open>pwm_bits_\<close> holds \<open>v\<close> and nothing
  else changed; \<^verbatim>\<open>SetPWMBits(1)\<close> and \<^verbatim>\<open>SetPWMBits(11)\<close> succeed and store 1 and 11.
\<close>

theorem SetPWMBits_result:
  "(fst (SetPWMBits v fb) = False) = (unat v < 1 \<or> unat v > 11)
   \<and> (if fst (SetPWMBits v fb) then snd (SetPWMBits v fb) = fb\<lparr>pwm_bits_m := unat v\<rparr>
      else snd (SetPWMBits v fb) = fb)
   \<and> SetPWMBits 1 fb = (True, fb\<lparr>pwm_bits_m := 1\<rparr>)
   \<and> SetPWMBits 11 fb = (True, fb\<lparr>pwm_bits_m := 11\<rparr>)"
  by (simp add: SetPWMBits_def kBitPlanes_def)

subsection \<open>The plane loops of \<^verbatim>\<open>SetPixel\<close>\<close>

lemma and_plane_bit:
  fixes w :: "16 word"
  assumes "n < 16"
  shows "(w AND 2 ^ n = 2 ^ n) = bit w n"
proof
  assume "w AND 2 ^ n = 2 ^ n"
  then have "bit (w AND 2 ^ n) n = bit (2 ^ n :: 16 word) n"
    by simp
  then show "bit w n"
    using assms by (simp add: bit_simps)
next
  assume b: "bit w n"
  show "w AND 2 ^ n = 2 ^ n"
    using b by (intro bit_word_eqI) (auto simp: bit_simps)
qed

lemma SetPixel_planes_step:
  assumes "0 \<le> b" and "b < int kBitPlanes"
  shows "SetPixel_planes fr fg fbl red green blue columns b bits buf =
     SetPixel_planes fr fg fbl red green blue columns (b + 1) (bits + columns)
       (buf[nat bits := write_lanes fr fg fbl red green blue b (buf ! nat bits)])"
proof -
  have "nat b < 16" using assms by (simp add: kBitPlanes_def)
  then show ?thesis
    using assms(2)
    by (subst SetPixel_planes.simps) (simp add: write_lanes_def Let_def and_plane_bit)
qed

lemma SetPixel_planes_stop:
  "\<not> b < int kBitPlanes \<Longrightarrow> SetPixel_planes fr fg fbl red green blue columns b bits buf = buf"
  by (subst SetPixel_planes.simps) simp

lemma SetPixel_planes_length [simp]:
  "length (SetPixel_planes fr fg fbl red green blue columns b bits buf) = length buf"
proof (induction "nat (int kBitPlanes - b)" arbitrary: b bits buf)
  case 0
  then show ?case by (simp add: SetPixel_planes_stop)
next
  case (Suc n)
  then have "b < int kBitPlanes" "n = nat (int kBitPlanes - (b + 1))"
    by linarith+
  with Suc.hyps(1) show ?case
    by (subst SetPixel_planes.simps) (simp add: Let_def)
qed

lemma SetPixel_planes_other:
  assumes "0 \<le> b" and "\<And>k. b \<le> k \<Longrightarrow> k < int kBitPlanes \<Longrightarrow> j \<noteq> nat (bits + (k - b) * columns)"
  shows "SetPixel_planes fr fg fbl red green blue columns b bits buf ! j = buf ! j"
  using assms
proof (induction "nat (int kBitPlanes - b)" arbitrary: b bits buf)
  case 0
  then show ?case by (simp add: SetPixel_planes_stop)
next
  case (Suc n)
  then have b: "b < int kBitPlanes" "n = nat (int kBitPlanes - (b + 1))" "0 \<le> b + 1"
    by linarith+
  have j: "j \<noteq> nat bits"
    using Suc.prems(2) [of b] b by simp
  have "SetPixel_planes fr fg fbl red green blue columns (b + 1) (bits + columns)
            (buf[nat bits := write_lanes fr fg fbl red green blue b (buf ! nat bits)]) ! j
          = (buf[nat bits := write_lanes fr fg fbl red green blue b (buf ! nat bits)]) ! j"
  proof (rule Suc.hyps(1) [OF b(2,3)])
    fix k assume k: "b + 1 \<le> k" "k < int kBitPlanes"
    have "bits + columns + (k - (b + 1)) * columns = bits + (k - b) * columns"
      by (simp add: algebra_simps)
    then show "j \<noteq> nat (bits + columns + (k - (b + 1)) * columns)"
      using Suc.prems(2) [of k] k by simp
  qed
  then show ?case
    using j Suc.prems(1) b(1) by (simp add: SetPixel_planes_step)
qed

lemma SetPixel_planes_at:
  assumes "0 \<le> b" and "b \<le> k" and "k < int kBitPlanes" and "0 < columns" and "0 \<le> bits"
    and "nat (bits + (k - b) * columns) < length buf"
  shows "SetPixel_planes fr fg fbl red green blue columns b bits buf ! nat (bits + (k - b) * columns)
         = write_lanes fr fg fbl red green blue k (buf ! nat (bits + (k - b) * columns))"
  using assms
proof (induction "nat (int kBitPlanes - b)" arbitrary: b bits buf)
  case 0
  then show ?case by simp
next
  case (Suc n)
  then have b: "b < int kBitPlanes" "n = nat (int kBitPlanes - (b + 1))" "0 \<le> b + 1"
    by linarith+
  let ?buf = "buf[nat bits := write_lanes fr fg fbl red green blue b (buf ! nat bits)]"
  show ?case
  proof (cases "k = b")
    case True
    have "SetPixel_planes fr fg fbl red green blue columns (b + 1) (bits + columns) ?buf ! nat bits
          = ?buf ! nat bits"
    proof (rule SetPixel_planes_other [OF b(3)])
      fix k' assume k': "b + 1 \<le> k'" "k' < int kBitPlanes"
      have "0 < (k' - b) * columns"
        using k' Suc.prems(4) by simp
      then have "bits < bits + columns + (k' - (b + 1)) * columns"
        by (simp add: algebra_simps)
      then show "nat bits \<noteq> nat (bits + columns + (k' - (b + 1)) * columns)"
        using Suc.prems(5) by simp
    qed
    then show ?thesis
      using True Suc.prems b(1) by (simp add: SetPixel_planes_step)
  next
    case False
    then have k: "b + 1 \<le> k" using Suc.prems(2) by simp
    have e: "bits + columns + (k - (b + 1)) * columns = bits + (k - b) * columns"
      by (simp add: algebra_simps)
    have "0 < (k - b) * columns"
      using k Suc.prems(4) by simp
    then have ne: "nat (bits + (k - b) * columns) \<noteq> nat bits"
      using Suc.prems(5) by simp
    have "SetPixel_planes fr fg fbl red green blue columns (b + 1) (bits + columns) ?buf
            ! nat (bits + columns + (k - (b + 1)) * columns)
          = write_lanes fr fg fbl red green blue k (?buf ! nat (bits + columns + (k - (b + 1)) * columns))"
      using Suc.prems(3,4,5,6) k
      by (intro Suc.hyps(1) [OF b(2,3)]) (simp_all add: e)
    then show ?thesis
      using ne Suc.prems(1) b(1) by (simp add: SetPixel_planes_step e)
  qed
qed

lemma ValueAt_plane_shift:
  "ValueAt fb d x kmin + (k - kmin) * columns_m fb = ValueAt fb d x k"
  by (simp add: ValueAt_def algebra_simps)

lemma ValueAt_column_shift: "ValueAt fb d 0 k + x = ValueAt fb d x k"
  by (simp add: ValueAt_def)

lemma valid_cell_index:
  assumes "valid_cell fb d x k"
    and "length buf = nat (double_rows_m fb * columns_m fb * int kBitPlanes)"
  shows "nat (ValueAt fb d x k) < length buf"
  using ValueAt_range [OF assms(1)] assms(2) by simp

lemma nat_ValueAt_unique:
  assumes "nat (ValueAt fb d x k) = nat (ValueAt fb d' x' k')"
    and "valid_cell fb d x k" and "valid_cell fb d' x' k'"
  shows "d = d' \<and> x = x' \<and> k = k'"
proof -
  have "0 \<le> ValueAt fb d x k" "0 \<le> ValueAt fb d' x' k'"
    using ValueAt_range [OF assms(2)] ValueAt_range [OF assms(3)] by blast+
  then have "ValueAt fb d x k = ValueAt fb d' x' k'"
    using assms(1) by (simp only: eq_nat_nat_iff)
  moreover from assms(2,3)
  have "0 \<le> x" "x < columns_m fb" "0 \<le> x'" "x' < columns_m fb"
    "0 \<le> k" "k < int kBitPlanes" "0 \<le> k'" "k' < int kBitPlanes"
    by (simp_all add: valid_cell_def)
  ultimately show ?thesis
    by (rule ValueAt_unique)
qed

lemma SetPixel_planes_cell:
  assumes c: "valid_cell fb d x k" and c0: "valid_cell fb d0 x0 kmin"
    and len: "length buf = nat (double_rows_m fb * columns_m fb * int kBitPlanes)"
  shows "SetPixel_planes fr fg fbl red green blue (columns_m fb) kmin (ValueAt fb d0 x0 kmin) buf
           ! nat (ValueAt fb d x k)
         = (if d = d0 \<and> x = x0 \<and> kmin \<le> k
            then write_lanes fr fg fbl red green blue k (buf ! nat (ValueAt fb d x k))
            else buf ! nat (ValueAt fb d x k))"
proof (cases "d = d0 \<and> x = x0 \<and> kmin \<le> k")
  case True
  have "SetPixel_planes fr fg fbl red green blue (columns_m fb) kmin (ValueAt fb d0 x0 kmin) buf
           ! nat (ValueAt fb d0 x0 kmin + (k - kmin) * columns_m fb)
        = write_lanes fr fg fbl red green blue k
            (buf ! nat (ValueAt fb d0 x0 kmin + (k - kmin) * columns_m fb))"
  proof (rule SetPixel_planes_at)
    show "0 \<le> kmin" "kmin \<le> k" "k < int kBitPlanes" "0 < columns_m fb"
      using c c0 True by (simp_all add: valid_cell_def)
    show "0 \<le> ValueAt fb d0 x0 kmin"
      using ValueAt_range [OF c0] by simp
    show "nat (ValueAt fb d0 x0 kmin + (k - kmin) * columns_m fb) < length buf"
      using valid_cell_index [OF c len] True by (simp add: ValueAt_plane_shift)
  qed
  then show ?thesis
    using True by (simp add: ValueAt_plane_shift)
next
  case False
  have "SetPixel_planes fr fg fbl red green blue (columns_m fb) kmin (ValueAt fb d0 x0 kmin) buf
           ! nat (ValueAt fb d x k) = buf ! nat (ValueAt fb d x k)"
  proof (rule SetPixel_planes_other)
    show "0 \<le> kmin" using c0 by (simp add: valid_cell_def)
    fix k' assume k': "kmin \<le> k'" "k' < int kBitPlanes"
    then have v: "valid_cell fb d0 x0 k'"
      using c0 by (simp add: valid_cell_def)
    show "nat (ValueAt fb d x k) \<noteq> nat (ValueAt fb d0 x0 kmin + (k' - kmin) * columns_m fb)"
    proof
      assume "nat (ValueAt fb d x k) = nat (ValueAt fb d0 x0 kmin + (k' - kmin) * columns_m fb)"
      then have "nat (ValueAt fb d x k) = nat (ValueAt fb d0 x0 k')"
        by (simp add: ValueAt_plane_shift)
      from nat_ValueAt_unique [OF this c v] k' False show False by simp
    qed
  qed
  then show ?thesis by (simp only: False if_False)
qed

subsection \<open>The loops of \<^verbatim>\<open>Fill\<close>\<close>

lemma Fill_cols_step:
  "col < columns \<Longrightarrow>
   Fill_cols raw columns col p buf = Fill_cols raw columns (col + 1) (p + 1) (buf[nat p := raw])"
  by (subst Fill_cols.simps) simp

lemma Fill_cols_stop: "\<not> col < columns \<Longrightarrow> Fill_cols raw columns col p buf = buf"
  by (subst Fill_cols.simps) simp

lemma Fill_cols_length [simp]: "length (Fill_cols raw columns col p buf) = length buf"
proof (induction "nat (columns - col)" arbitrary: col p buf)
  case 0
  then show ?case by (simp add: Fill_cols_stop)
next
  case (Suc n)
  then have "col < columns" "n = nat (columns - (col + 1))" by linarith+
  with Suc.hyps(1) show ?case by (simp add: Fill_cols_step)
qed

lemma Fill_cols_nth:
  assumes "0 \<le> p" and "p + (columns - col) \<le> int (length buf)"
  shows "Fill_cols raw columns col p buf ! j =
           (if p \<le> int j \<and> int j < p + (columns - col) then raw else buf ! j)"
  using assms
proof (induction "nat (columns - col)" arbitrary: col p buf)
  case 0
  then have n: "\<not> col < columns"
    by linarith
  then have "\<not> (p \<le> int j \<and> int j < p + (columns - col))"
    by linarith
  then have "(if p \<le> int j \<and> int j < p + (columns - col) then raw else buf ! j) = buf ! j"
    by (rule if_not_P)
  moreover have "Fill_cols raw columns col p buf = buf"
    using n by (rule Fill_cols_stop)
  ultimately show ?case
    by simp
next
  case (Suc n)
  then have c: "col < columns" "n = nat (columns - (col + 1))" by linarith+
  have "Fill_cols raw columns (col + 1) (p + 1) (buf[nat p := raw]) ! j =
           (if p + 1 \<le> int j \<and> int j < p + 1 + (columns - (col + 1)) then raw
            else (buf[nat p := raw]) ! j)"
  proof (rule Suc.hyps(1) [OF c(2)])
    show "0 \<le> p + 1" using Suc.prems(1) by simp
    show "p + 1 + (columns - (col + 1)) \<le> int (length (buf[nat p := raw]))"
      using Suc.prems(2) by simp
  qed
  moreover have "nat p < length buf"
    using Suc.prems(1,2) c(1) by linarith
  moreover have "(p \<le> int j \<and> int j < p + (columns - col)) =
      (j = nat p \<or> (p + 1 \<le> int j \<and> int j < p + 1 + (columns - (col + 1))))"
    using Suc.prems(1) c(1) by auto
  ultimately have "Fill_cols raw columns (col + 1) (p + 1) (buf[nat p := raw]) ! j =
           (if p \<le> int j \<and> int j < p + (columns - col) then raw else buf ! j)"
    by (cases "j = nat p") simp_all
  then show ?case
    using c(1) by (simp add: Fill_cols_step)
qed

lemma Fill_rows_step:
  "row < double_rows_m fb \<Longrightarrow>
   Fill_rows fb raw k row buf =
     Fill_rows fb raw k (row + 1) (Fill_cols raw (columns_m fb) 0 (ValueAt fb row 0 k) buf)"
  by (subst Fill_rows.simps) simp

lemma Fill_rows_stop: "\<not> row < double_rows_m fb \<Longrightarrow> Fill_rows fb raw k row buf = buf"
  by (subst Fill_rows.simps) simp

lemma Fill_rows_length [simp]: "length (Fill_rows fb raw k row buf) = length buf"
proof (induction "nat (double_rows_m fb - row)" arbitrary: row buf)
  case 0
  then show ?case by (simp add: Fill_rows_stop)
next
  case (Suc n)
  then have "row < double_rows_m fb" "n = nat (double_rows_m fb - (row + 1))" by linarith+
  with Suc.hyps(1) show ?case by (simp add: Fill_rows_step)
qed

lemma Fill_cols_cell:
  assumes c: "valid_cell fb d x k'" and r: "valid_cell fb row 0 k"
    and len: "length buf = nat (double_rows_m fb * columns_m fb * int kBitPlanes)"
  shows "Fill_cols raw (columns_m fb) 0 (ValueAt fb row 0 k) buf ! nat (ValueAt fb d x k') =
           (if d = row \<and> k' = k then raw else buf ! nat (ValueAt fb d x k'))"
proof -
  let ?p = "ValueAt fb row 0 k" and ?i = "ValueAt fb d x k'"
  have x: "0 \<le> x" "x < columns_m fb" using c by (simp_all add: valid_cell_def)
  have last: "valid_cell fb row (columns_m fb - 1) k"
    using r by (simp add: valid_cell_def)
  have "?p + (columns_m fb - 1) < double_rows_m fb * columns_m fb * int kBitPlanes"
    using ValueAt_range [OF last] by (simp only: ValueAt_column_shift)
  moreover from this ValueAt_range [OF r]
  have "int (length buf) = double_rows_m fb * columns_m fb * int kBitPlanes"
    unfolding len by linarith
  ultimately have fit: "?p + (columns_m fb - 0) \<le> int (length buf)"
    by linarith
  have p0: "0 \<le> ?p" using ValueAt_range [OF r] by simp
  have i0: "0 \<le> ?i" using ValueAt_range [OF c] by simp
  have "(?p \<le> ?i \<and> ?i < ?p + columns_m fb) = (d = row \<and> k' = k)"
  proof
    assume a: "?p \<le> ?i \<and> ?i < ?p + columns_m fb"
    define x' where "x' = ?i - ?p"
    have "0 \<le> x'" "x' < columns_m fb" using a by (simp_all add: x'_def)
    moreover have "?i = ValueAt fb row x' k"
      by (simp add: x'_def ValueAt_def)
    moreover have "0 \<le> k'" "k' < int kBitPlanes" "0 \<le> k" "k < int kBitPlanes"
      using c r by (simp_all add: valid_cell_def)
    ultimately have "d = row \<and> x = x' \<and> k' = k"
      using x by (intro ValueAt_unique)
    then show "d = row \<and> k' = k" by simp
  next
    assume "d = row \<and> k' = k"
    then show "?p \<le> ?i \<and> ?i < ?p + columns_m fb"
      using x by (simp add: ValueAt_def)
  qed
  moreover have "int (nat ?i) = ?i" using i0 by simp
  ultimately show ?thesis
    using Fill_cols_nth [OF p0 fit, of raw "nat ?i"] by (simp only: diff_zero)
qed

lemma Fill_rows_cell:
  assumes c: "valid_cell fb d x k'" and k: "0 \<le> k" "k < int kBitPlanes" and row: "0 \<le> row"
    and len: "length buf = nat (double_rows_m fb * columns_m fb * int kBitPlanes)"
  shows "Fill_rows fb raw k row buf ! nat (ValueAt fb d x k') =
           (if k' = k \<and> row \<le> d then raw else buf ! nat (ValueAt fb d x k'))"
  using row len
proof (induction "nat (double_rows_m fb - row)" arbitrary: row buf)
  case 0
  then have "\<not> row < double_rows_m fb" by simp
  moreover from this have "\<not> row \<le> d" using c by (simp add: valid_cell_def)
  ultimately show ?case by (simp add: Fill_rows_stop)
next
  case (Suc n)
  then have r: "row < double_rows_m fb" "n = nat (double_rows_m fb - (row + 1))" "0 \<le> row + 1"
    by linarith+
  have cols: "0 < columns_m fb" using c by (simp add: valid_cell_def)
  have v: "valid_cell fb row 0 k"
    using r(1) Suc.prems(1) k cols by (simp add: valid_cell_def)
  let ?buf = "Fill_cols raw (columns_m fb) 0 (ValueAt fb row 0 k) buf"
  have "Fill_rows fb raw k (row + 1) ?buf ! nat (ValueAt fb d x k') =
           (if k' = k \<and> row + 1 \<le> d then raw else ?buf ! nat (ValueAt fb d x k'))"
    using Suc.prems(2) by (intro Suc.hyps(1) [OF r(2,3)]) simp
  moreover have "?buf ! nat (ValueAt fb d x k') =
           (if d = row \<and> k' = k then raw else buf ! nat (ValueAt fb d x k'))"
    by (rule Fill_cols_cell [OF c v Suc.prems(2)])
  moreover have "(row \<le> d) = (d = row \<or> row + 1 \<le> d)"
    by linarith
  ultimately have "Fill_rows fb raw k (row + 1) ?buf ! nat (ValueAt fb d x k') =
           (if k' = k \<and> row \<le> d then raw else buf ! nat (ValueAt fb d x k'))"
    by (cases "d = row") auto
  then show ?case
    by (simp only: Fill_rows_step [OF r(1)])
qed

lemma Fill_planes_step:
  "k < int kBitPlanes \<Longrightarrow>
   Fill_planes fb pb k buf = Fill_planes fb pb (k + 1) (Fill_rows fb (pb k) k 0 buf)"
  by (subst Fill_planes.simps) simp

lemma Fill_planes_stop: "\<not> k < int kBitPlanes \<Longrightarrow> Fill_planes fb pb k buf = buf"
  by (subst Fill_planes.simps) simp

lemma Fill_planes_length [simp]: "length (Fill_planes fb pb k buf) = length buf"
proof (induction "nat (int kBitPlanes - k)" arbitrary: k buf)
  case 0
  then show ?case by (simp add: Fill_planes_stop)
next
  case (Suc n)
  then have "k < int kBitPlanes" "n = nat (int kBitPlanes - (k + 1))" by linarith+
  with Suc.hyps(1) show ?case by (simp add: Fill_planes_step)
qed

lemma Fill_planes_cell:
  assumes c: "valid_cell fb d x k'" and k: "0 \<le> k"
    and len: "length buf = nat (double_rows_m fb * columns_m fb * int kBitPlanes)"
  shows "Fill_planes fb pb k buf ! nat (ValueAt fb d x k') =
           (if k \<le> k' then pb k' else buf ! nat (ValueAt fb d x k'))"
  using k len
proof (induction "nat (int kBitPlanes - k)" arbitrary: k buf)
  case 0
  then have "\<not> k < int kBitPlanes" by simp
  moreover from this have "\<not> k \<le> k'" using c by (simp add: valid_cell_def)
  ultimately show ?case by (simp add: Fill_planes_stop)
next
  case (Suc n)
  then have r: "k < int kBitPlanes" "n = nat (int kBitPlanes - (k + 1))" "0 \<le> k + 1"
    by linarith+
  let ?buf = "Fill_rows fb (pb k) k 0 buf"
  have d: "0 \<le> d" using c by (simp add: valid_cell_def)
  have "Fill_planes fb pb (k + 1) ?buf ! nat (ValueAt fb d x k') =
           (if k + 1 \<le> k' then pb k' else ?buf ! nat (ValueAt fb d x k'))"
    using Suc.prems(2) by (intro Suc.hyps(1) [OF r(2,3)]) simp
  moreover have "?buf ! nat (ValueAt fb d x k') =
           (if k' = k then pb k else buf ! nat (ValueAt fb d x k'))"
    using d Fill_rows_cell [OF c Suc.prems(1) r(1) order_refl Suc.prems(2), of "pb k"]
    by simp
  ultimately have "Fill_planes fb pb (k + 1) ?buf ! nat (ValueAt fb d x k') =
           (if k \<le> k' then pb k' else buf ! nat (ValueAt fb d x k'))"
    by (cases "k' = k") auto
  then show ?case
    by (simp only: Fill_planes_step [OF r(1)])
qed

subsection \<open>Well-formed framebuffers\<close>

lemma well_formed_double_rows:
  assumes "well_formed bld fb"
  shows "double_rows_m fb = 4 \<or> double_rows_m fb = 8 \<or> double_rows_m fb = 16
         \<or> double_rows_m fb = 32 \<or> double_rows_m fb = 64"
    and "0 < double_rows_m fb" and "double_rows_m fb \<le> rows_m fb" and "0 < rows_m fb"
  using assms by (auto simp: well_formed_def SUB_PANELS_def split: if_splits)

lemma Fill_fields [simp]:
  "rows_m (Fill bld r g b fb) = rows_m fb" "parallel_m (Fill bld r g b fb) = parallel_m fb"
  "height_m (Fill bld r g b fb) = height_m fb" "columns_m (Fill bld r g b fb) = columns_m fb"
  "pwm_bits_m (Fill bld r g b fb) = pwm_bits_m fb"
  "do_luminance_correct_m (Fill bld r g b fb) = do_luminance_correct_m fb"
  "brightness_m (Fill bld r g b fb) = brightness_m fb"
  "double_rows_m (Fill bld r g b fb) = double_rows_m fb"
  "row_mask_m (Fill bld r g b fb) = row_mask_m fb"
  "length (bitplane_buffer_0 (Fill bld r g b fb)) = length (bitplane_buffer_0 fb)"
  "length (bitplane_buffer_1 (Fill bld r g b fb)) = length (bitplane_buffer_1 fb)"
  by (simp_all add: Fill_def Let_def)

lemma Clear_fields [simp]:
  "rows_m (Clear bld fb) = rows_m fb" "parallel_m (Clear bld fb) = parallel_m fb"
  "height_m (Clear bld fb) = height_m fb" "columns_m (Clear bld fb) = columns_m fb"
  "pwm_bits_m (Clear bld fb) = pwm_bits_m fb"
  "do_luminance_correct_m (Clear bld fb) = do_luminance_correct_m fb"
  "brightness_m (Clear bld fb) = brightness_m fb"
  "double_rows_m (Clear bld fb) = double_rows_m fb"
  "row_mask_m (Clear bld fb) = row_mask_m fb"
  by (simp_all add: Clear_def Let_def)

lemma SetPixel_fields [simp]:
  "rows_m (SetPixel bld x y r g b fb) = rows_m fb"
  "parallel_m (SetPixel bld x y r g b fb) = parallel_m fb"
  "height_m (SetPixel bld x y r g b fb) = height_m fb"
  "columns_m (SetPixel bld x y r g b fb) = columns_m fb"
  "pwm_bits_m (SetPixel bld x y r g b fb) = pwm_bits_m fb"
  "do_luminance_correct_m (SetPixel bld x y r g b fb) = do_luminance_correct_m fb"
  "brightness_m (SetPixel bld x y r g b fb) = brightness_m fb"
  "double_rows_m (SetPixel bld x y r g b fb) = double_rows_m fb"
  "row_mask_m (SetPixel bld x y r g b fb) = row_mask_m fb"
  by (simp_all add: SetPixel_def Let_def)

lemma ValueAt_cong: "columns_m fb' = columns_m fb \<Longrightarrow> ValueAt fb' = ValueAt fb"
  by (intro ext) (simp add: ValueAt_def)

lemma valid_cell_cong:
  "columns_m fb' = columns_m fb \<Longrightarrow> double_rows_m fb' = double_rows_m fb \<Longrightarrow>
   valid_cell fb' = valid_cell fb"
  by (intro ext) (simp add: valid_cell_def)

lemma Fill_well_formed: "well_formed bld fb \<Longrightarrow> well_formed bld (Fill bld r g b fb)"
  by (simp add: well_formed_def)

lemma Clear_well_formed:
  assumes "well_formed bld fb"
  shows "well_formed bld (Clear bld fb)"
proof (cases "INVERSE_RGB_DISPLAY_COLORS bld")
  case True
  then show ?thesis using assms by (simp add: Clear_def Fill_well_formed)
next
  case False
  have "length (bitplane_buffer_0 (Clear bld fb)) = length (bitplane_buffer_0 fb)"
    "length (bitplane_buffer_1 (Clear bld fb)) = length (bitplane_buffer_1 fb)"
    using assms False by (simp_all add: Clear_def Let_def well_formed_def)
  then show ?thesis
    using assms by (simp add: well_formed_def)
qed

lemma ctor_well_formed:
  assumes "Framebuffer_ctor bld rows columns parallel = Some fb"
  shows "well_formed bld fb"
proof -
  let ?dr = "rows div SUB_PANELS bld"
  let ?n = "?dr * columns * int kBitPlanes"
  let ?fb0 = "\<lparr>rows_m = rows, parallel_m = parallel, height_m = rows * parallel,
                columns_m = columns, pwm_bits_m = kBitPlanes, do_luminance_correct_m = True,
                brightness_m = 100, double_rows_m = ?dr, row_mask_m = ?dr - 1,
                bitplane_buffer_0 = replicate (nat ?n) IoBits_default,
                bitplane_buffer_1 =
                  (if CM_5_CHAIN_SUPPORT bld then replicate (nat ?n) IoBits_default else [])\<rparr>"
  from assms have fb: "fb = Clear bld ?fb0"
    and g: "rows = 8 \<or> rows = 16 \<or> rows = 32 \<or> rows = 64" "1 \<le> parallel"
      "parallel \<le> (if CM_5_CHAIN_SUPPORT bld then 5 else 3)"
      "\<not> (ONLY_SINGLE_CHAIN bld \<and> parallel > 1)" "0 \<le> ?n" "?n \<le> 2147483647"
    by (auto simp: Framebuffer_ctor_def Let_def split: if_splits)
  have "0 < ?dr" using g(1) by (auto simp: SUB_PANELS_def)
  with g(5) have "0 \<le> columns"
    by (simp add: kBitPlanes_def zero_le_mult_iff)
  with g have "well_formed bld ?fb0"
    by (auto simp: well_formed_def kBitPlanes_def)
  then show ?thesis
    unfolding fb by (rule Clear_well_formed)
qed

lemma SetPixel_lengths [simp]:
  "length (bitplane_buffer_0 (SetPixel bld x y r g b fb)) = length (bitplane_buffer_0 fb)"
  "length (bitplane_buffer_1 (SetPixel bld x y r g b fb)) = length (bitplane_buffer_1 fb)"
  by (simp_all add: SetPixel_def Let_def)

lemma SetPixel_well_formed:
  "well_formed bld fb \<Longrightarrow> well_formed bld (SetPixel bld x y r g b fb)"
  by (simp add: well_formed_def)

lemma SetPWMBits_well_formed:
  "well_formed bld fb \<Longrightarrow> well_formed bld (snd (SetPWMBits v fb))"
proof (cases "unat v < 1 \<or> unat v > kBitPlanes")
  case True
  then show "well_formed bld fb \<Longrightarrow> ?thesis"
    by (simp add: SetPWMBits_def)
next
  case False
  then have "snd (SetPWMBits v fb) = fb\<lparr>pwm_bits_m := unat v\<rparr>" "1 \<le> unat v" "unat v \<le> kBitPlanes"
    by (simp_all add: SetPWMBits_def)
  then show "well_formed bld fb \<Longrightarrow> ?thesis"
    by (simp add: well_formed_def)
qed

lemma SetBrightness_well_formed:
  "well_formed bld fb \<Longrightarrow> SetBrightness v fb = Some fb' \<Longrightarrow> well_formed bld fb'"
proof -
  assume w: "well_formed bld fb" and s: "SetBrightness v fb = Some fb'"
  from s have "1 \<le> unat v \<and> unat v \<le> 100" and "fb' = fb\<lparr>brightness_m := unat v\<rparr>"
    by (simp_all add: SetBrightness_def split: if_splits)
  with w show ?thesis
    by (simp add: well_formed_def)
qed

lemma run_mutator_well_formed:
  assumes "well_formed bld fb" and "run_mutator bld m fb = Some fb'"
  shows "well_formed bld fb'"
proof (cases m)
  case Call_Clear
  then show ?thesis using assms Clear_well_formed by auto
next
  case (Call_Fill r g b)
  then show ?thesis using assms Fill_well_formed by auto
next
  case (Call_SetPixel x y r g b)
  then show ?thesis using assms SetPixel_well_formed by auto
next
  case (Call_SetPWMBits v)
  then show ?thesis using assms SetPWMBits_well_formed by auto
next
  case (Call_SetBrightness v)
  then show ?thesis using assms SetBrightness_well_formed by auto
qed

lemma run_mutators_well_formed:
  "well_formed bld fb \<Longrightarrow> run_mutators bld ms fb = Some fb' \<Longrightarrow> well_formed bld fb'"
proof (induction ms arbitrary: fb)
  case Nil
  then show ?case by simp
next
  case (Cons m ms)
  then show ?case
    by (auto split: option.splits dest: run_mutator_well_formed)
qed

subsection \<open>\<^verbatim>\<open>SetPixel\<close> in range\<close>

lemma and_row_mask:
  fixes y :: int
  assumes "dr = 4 \<or> dr = 8 \<or> dr = 16 \<or> dr = 32 \<or> dr = 64"
  shows "y AND (dr - 1) = y mod dr"
proof -
  have "y AND 3 = y mod 4"
    using take_bit_eq_mask [of 2 y] take_bit_eq_mod [of 2 y] by (simp add: mask_eq_exp_minus_1)
  moreover have "y AND 7 = y mod 8"
    using take_bit_eq_mask [of 3 y] take_bit_eq_mod [of 3 y] by (simp add: mask_eq_exp_minus_1)
  moreover have "y AND 15 = y mod 16"
    using take_bit_eq_mask [of 4 y] take_bit_eq_mod [of 4 y] by (simp add: mask_eq_exp_minus_1)
  moreover have "y AND 31 = y mod 32"
    using take_bit_eq_mask [of 5 y] take_bit_eq_mod [of 5 y] by (simp add: mask_eq_exp_minus_1)
  moreover have "y AND 63 = y mod 64"
    using take_bit_eq_mask [of 6 y] take_bit_eq_mod [of 6 y] by (simp add: mask_eq_exp_minus_1)
  ultimately show ?thesis
    using assms by (elim disjE) simp_all
qed

lemma chain_div_mod:
  fixes y r c :: int
  assumes "0 < r" and "c * r \<le> y" and "y < c * r + r"
  shows "y div r = c" and "y mod r = y - c * r"
proof -
  have e: "y = r * c + (y - c * r)" by simp
  have b: "0 \<le> y - c * r" "y - c * r < r" using assms by simp_all
  show "y div r = c" by (rule int_div_pos_eq [OF e b])
  show "y mod r = y - c * r" by (rule int_mod_pos_eq [OF e b])
qed

lemma chain_lt_parallel:
  fixes y r c p :: int
  assumes "0 < r" and "c * r \<le> y" and "y < r * p"
  shows "c < p"
proof (rule ccontr)
  assume "\<not> c < p"
  then have "r * p \<le> r * c"
    using assms(1) by (intro mult_left_mono) simp_all
  with assms(2,3) show False by (simp add: mult.commute)
qed

lemma pixel_chain_cases:
  assumes wf: "well_formed bld fb" and y: "0 \<le> y" "y < height_m fb"
  obtains c where "0 \<le> c" "c < parallel_m fb" "c \<le> 4" "c * rows_m fb \<le> y" "y < c * rows_m fb + rows_m fb"
    "y div rows_m fb = c" "y mod rows_m fb = y - c * rows_m fb"
proof -
  let ?r = "rows_m fb"
  have r: "0 < ?r" using wf by (rule well_formed_double_rows)
  define c where "c = y div ?r"
  have c0: "0 \<le> c" using y(1) r by (simp add: c_def pos_imp_zdiv_nonneg_iff)
  have m: "0 \<le> y mod ?r" "y mod ?r < ?r" using r by simp_all
  have d: "y = c * ?r + y mod ?r" by (simp add: c_def)
  have lo: "c * ?r \<le> y" using m(1) d by linarith
  have hi: "y < c * ?r + ?r" using m(2) d by linarith
  have hp: "y < ?r * parallel_m fb" using wf y(2) by (simp add: well_formed_def)
  have cp: "c < parallel_m fb" by (rule chain_lt_parallel [OF r lo hp])
  have "parallel_m fb \<le> 5" using wf by (simp add: well_formed_def split: if_splits)
  with cp have c4: "c \<le> 4" by simp
  show ?thesis
    using that [OF c0 cp c4 lo hi] chain_div_mod [OF r lo hi] by simp
qed

lemma SetPixel_in_range:
  assumes wf: "well_formed bld fb" and x: "0 \<le> x" "x < columns_m fb"
    and y: "0 \<le> y" "y < height_m fb"
    and lanes: "pixel_lanes fb y = (fr, fg, fbl)"
    and red: "red = MapColor bld fb r"
    and green: "green = MapColor bld fb (if PANEL_SWAP_G_B bld then b else g)"
    and blue: "blue = MapColor bld fb (if PANEL_SWAP_G_B bld then g else b)"
    and kmin: "kmin = int kBitPlanes - int (pwm_bits_m fb)"
  shows "SetPixel bld x y r g b fb =
     (if y div rows_m fb < 3
      then fb\<lparr>bitplane_buffer_0 :=
               SetPixel_planes fr fg fbl red green blue (columns_m fb) kmin
                 (ValueAt fb (y mod double_rows_m fb) x kmin) (bitplane_buffer_0 fb)\<rparr>
      else fb\<lparr>bitplane_buffer_1 :=
               SetPixel_planes fr fg fbl red green blue (columns_m fb) kmin
                 (ValueAt fb (y mod double_rows_m fb) x kmin) (bitplane_buffer_1 fb)\<rparr>)"
proof -
  let ?r = "rows_m fb"
  have r: "0 < ?r" using wf by (rule well_formed_double_rows)
  have g: "(x < 0 \<or> x \<ge> columns_m fb \<or> y < 0 \<or> y \<ge> height_m fb) = False"
    using x y by simp
  have am: "y AND row_mask_m fb = y mod double_rows_m fb"
    using and_row_mask [OF well_formed_double_rows(1) [OF wf], of y] wf
    by (simp add: well_formed_def)
  have par: "parallel_m fb \<le> (if ONLY_SINGLE_CHAIN bld then 1 else if CM_5_CHAIN_SUPPORT bld then 5 else 3)"
    using wf by (simp add: well_formed_def)
  obtain c where c: "0 \<le> c" "c < parallel_m fb" "c \<le> 4" "c * ?r \<le> y" "y < c * ?r + ?r"
    "y div ?r = c" "y mod ?r = y - c * ?r"
    using pixel_chain_cases [OF wf y] by blast
  consider "c = 0" | "c = 1" | "c = 2" | "c = 3" | "c = 4"
    using c(1,3) by linarith
  then show ?thesis
  proof cases
    case 1
    have f: "(y < ?r) = True"
      "(y < 2 * ?r) = True"
      "(y < 3 * ?r) = True"
      "(y < 4 * ?r) = True"
      "(y < 5 * ?r) = True"
      "(y \<ge> ?r) = False"
      "(y \<ge> 2 * ?r) = False"
      "(y \<ge> 3 * ?r) = False"
      "(y \<ge> 4 * ?r) = False"
      "(y div ?r < 3) = True"
      using c r 1 by simp_all
    have fl: "True" ..
    have l: "(fr, fg, fbl) = (if y < double_rows_m fb then (p0_r1, p0_g1, p0_b1) else (p0_r2, p0_g2, p0_b2))"
      using lanes c(6,7) 1 by (simp add: pixel_lanes_def lane_pins_def)
    show ?thesis
    proof (cases "y < double_rows_m fb")
      case True
      with l have p: "fr = p0_r1" "fg = p0_g1" "fbl = p0_b1" by simp_all
      show ?thesis
        unfolding SetPixel_def Let_def
        by (simp only: g f fl True p am red green blue kmin if_True if_False simp_thms)
    next
      case False
      with l have p: "fr = p0_r2" "fg = p0_g2" "fbl = p0_b2" by simp_all
      show ?thesis
        unfolding SetPixel_def Let_def
        by (simp only: g f fl False p am red green blue kmin if_True if_False simp_thms)
    qed
  next
    case 2
    have f: "(y < ?r) = False"
      "(y < 2 * ?r) = True"
      "(y < 3 * ?r) = True"
      "(y < 4 * ?r) = True"
      "(y < 5 * ?r) = True"
      "(y \<ge> ?r) = True"
      "(y \<ge> 2 * ?r) = False"
      "(y \<ge> 3 * ?r) = False"
      "(y \<ge> 4 * ?r) = False"
      "(y div ?r < 3) = True"
      using c r 2 by simp_all
    have fl: "ONLY_SINGLE_CHAIN bld = False"
      using par c(2) 2 by (simp split: if_splits)
    have l: "(fr, fg, fbl) = (if y - ?r < double_rows_m fb then (p1_r1, p1_g1, p1_b1) else (p1_r2, p1_g2, p1_b2))"
      using lanes c(6,7) 2 by (simp add: pixel_lanes_def lane_pins_def)
    show ?thesis
    proof (cases "y - ?r < double_rows_m fb")
      case True
      with l have p: "fr = p1_r1" "fg = p1_g1" "fbl = p1_b1" by simp_all
      show ?thesis
        unfolding SetPixel_def Let_def
        by (simp only: g f fl True p am red green blue kmin if_True if_False simp_thms)
    next
      case False
      with l have p: "fr = p1_r2" "fg = p1_g2" "fbl = p1_b2" by simp_all
      show ?thesis
        unfolding SetPixel_def Let_def
        by (simp only: g f fl False p am red green blue kmin if_True if_False simp_thms)
    qed
  next
    case 3
    have f: "(y < ?r) = False"
      "(y < 2 * ?r) = False"
      "(y < 3 * ?r) = True"
      "(y < 4 * ?r) = True"
      "(y < 5 * ?r) = True"
      "(y \<ge> ?r) = True"
      "(y \<ge> 2 * ?r) = True"
      "(y \<ge> 3 * ?r) = False"
      "(y \<ge> 4 * ?r) = False"
      "(y div ?r < 3) = True"
      using c r 3 by simp_all
    have fl: "ONLY_SINGLE_CHAIN bld = False"
      using par c(2) 3 by (simp split: if_splits)
    have l: "(fr, fg, fbl) = (if y - 2 * ?r < double_rows_m fb then (p2_r1, p2_g1, p2_b1) else (p2_r2, p2_g2, p2_b2))"
      using lanes c(6,7) 3 by (simp add: pixel_lanes_def lane_pins_def)
    show ?thesis
    proof (cases "y - 2 * ?r < double_rows_m fb")
      case True
      with l have p: "fr = p2_r1" "fg = p2_g1" "fbl = p2_b1" by simp_all
      show ?thesis
        unfolding SetPixel_def Let_def
        by (simp only: g f fl True p am red green blue kmin if_True if_False simp_thms)
    next
      case False
      with l have p: "fr = p2_r2" "fg = p2_g2" "fbl = p2_b2" by simp_all
      show ?thesis
        unfolding SetPixel_def Let_def
        by (simp only: g f fl False p am red green blue kmin if_True if_False simp_thms)
    qed
  next
    case 4
    have f: "(y < ?r) = False"
      "(y < 2 * ?r) = False"
      "(y < 3 * ?r) = False"
      "(y < 4 * ?r) = True"
      "(y < 5 * ?r) = True"
      "(y \<ge> ?r) = True"
      "(y \<ge> 2 * ?r) = True"
      "(y \<ge> 3 * ?r) = True"
      "(y \<ge> 4 * ?r) = False"
      "(y div ?r < 3) = False"
      using c r 4 by simp_all
    have fl: "CM_5_CHAIN_SUPPORT bld = True" "ONLY_SINGLE_CHAIN bld = False"
      using par c(2) 4 by (simp_all split: if_splits)
    have l: "(fr, fg, fbl) = (if y - 3 * ?r < double_rows_m fb then (p3_r1, p3_g1, p3_b1) else (p3_r2, p3_g2, p3_b2))"
      using lanes c(6,7) 4 by (simp add: pixel_lanes_def lane_pins_def)
    show ?thesis
    proof (cases "y - 3 * ?r < double_rows_m fb")
      case True
      with l have p: "fr = p3_r1" "fg = p3_g1" "fbl = p3_b1" by simp_all
      show ?thesis
        unfolding SetPixel_def Let_def
        by (simp only: g f fl True p am red green blue kmin if_True if_False simp_thms)
    next
      case False
      with l have p: "fr = p3_r2" "fg = p3_g2" "fbl = p3_b2" by simp_all
      show ?thesis
        unfolding SetPixel_def Let_def
        by (simp only: g f fl False p am red green blue kmin if_True if_False simp_thms)
    qed
  next
    case 5
    have f: "(y < ?r) = False"
      "(y < 2 * ?r) = False"
      "(y < 3 * ?r) = False"
      "(y < 4 * ?r) = False"
      "(y < 5 * ?r) = True"
      "(y \<ge> ?r) = True"
      "(y \<ge> 2 * ?r) = True"
      "(y \<ge> 3 * ?r) = True"
      "(y \<ge> 4 * ?r) = True"
      "(y div ?r < 3) = False"
      using c r 5 by simp_all
    have fl: "CM_5_CHAIN_SUPPORT bld = True" "ONLY_SINGLE_CHAIN bld = False"
      using par c(2) 5 by (simp_all split: if_splits)
    have l: "(fr, fg, fbl) = (if y - 4 * ?r < double_rows_m fb then (p4_r1, p4_g1, p4_b1) else (p4_r2, p4_g2, p4_b2))"
      using lanes c(6,7) 5 by (simp add: pixel_lanes_def lane_pins_def)
    show ?thesis
    proof (cases "y - 4 * ?r < double_rows_m fb")
      case True
      with l have p: "fr = p4_r1" "fg = p4_g1" "fbl = p4_b1" by simp_all
      show ?thesis
        unfolding SetPixel_def Let_def
        by (simp only: g f fl True p am red green blue kmin if_True if_False simp_thms)
    next
      case False
      with l have p: "fr = p4_r2" "fg = p4_g2" "fbl = p4_b2" by simp_all
      show ?thesis
        unfolding SetPixel_def Let_def
        by (simp only: g f fl False p am red green blue kmin if_True if_False simp_thms)
    qed
  qed
qed

subsection \<open>The effect of the mutators on a buffer word\<close>

lemma cell0_update [simp]:
  "cell0 (fb\<lparr>bitplane_buffer_0 := B\<rparr>) d x k = B ! nat (ValueAt fb d x k)"
  "cell0 (fb\<lparr>bitplane_buffer_1 := B\<rparr>) d x k = cell0 fb d x k"
  by (simp_all add: cell0_def ValueAt_def)

lemma cell1_update [simp]:
  "cell1 (fb\<lparr>bitplane_buffer_1 := B\<rparr>) d x k = B ! nat (ValueAt fb d x k)"
  "cell1 (fb\<lparr>bitplane_buffer_0 := B\<rparr>) d x k = cell1 fb d x k"
  by (simp_all add: cell1_def ValueAt_def)

lemma well_formed_lengths:
  assumes "well_formed bld fb"
  shows "length (bitplane_buffer_0 fb) = nat (double_rows_m fb * columns_m fb * int kBitPlanes)"
    and "CM_5_CHAIN_SUPPORT bld \<Longrightarrow>
         length (bitplane_buffer_1 fb) = nat (double_rows_m fb * columns_m fb * int kBitPlanes)"
    and "0 \<le> int kBitPlanes - int (pwm_bits_m fb)"
    and "int kBitPlanes - int (pwm_bits_m fb) < int kBitPlanes"
  using assms by (simp_all add: well_formed_def)

lemma pixel_start_cell:
  assumes wf: "well_formed bld fb" and x: "0 \<le> x" "x < columns_m fb"
  shows "valid_cell fb (y mod double_rows_m fb) x (int kBitPlanes - int (pwm_bits_m fb))"
  using well_formed_double_rows(2) [OF wf] well_formed_lengths(3,4) [OF wf] x
  by (simp add: valid_cell_def)

lemma high_chain_needs_cm5:
  assumes wf: "well_formed bld fb" and y: "0 \<le> y" "y < height_m fb"
    and c: "\<not> y div rows_m fb < 3"
  shows "CM_5_CHAIN_SUPPORT bld"
proof -
  obtain c where "c < parallel_m fb" "y div rows_m fb = c"
    using pixel_chain_cases [OF wf y] by blast
  with c have "4 \<le> parallel_m fb" by simp
  then show ?thesis
    using wf by (simp add: well_formed_def split: if_splits)
qed

lemma SetPixel_cell0:
  assumes wf: "well_formed bld fb" and x: "0 \<le> x" "x < columns_m fb"
    and y: "0 \<le> y" "y < height_m fb"
    and lanes: "pixel_lanes fb y = (fr, fg, fbl)"
    and c: "valid_cell fb d x' k"
  shows "cell0 (SetPixel bld x y r g b fb) d x' k =
     (if y div rows_m fb < 3 \<and> d = y mod double_rows_m fb \<and> x' = x
         \<and> int kBitPlanes - int (pwm_bits_m fb) \<le> k
      then write_lanes fr fg fbl (MapColor bld fb r)
             (MapColor bld fb (if PANEL_SWAP_G_B bld then b else g))
             (MapColor bld fb (if PANEL_SWAP_G_B bld then g else b)) k (cell0 fb d x' k)
      else cell0 fb d x' k)"
proof (cases "y div rows_m fb < 3")
  case True
  show ?thesis
    using SetPixel_planes_cell [OF c pixel_start_cell [OF wf x] well_formed_lengths(1) [OF wf]]
    by (simp add: SetPixel_in_range [OF wf x y lanes refl refl refl refl] True cell0_def [of fb])
next
  case False
  then show ?thesis
    by (simp add: SetPixel_in_range [OF wf x y lanes refl refl refl refl])
qed

lemma SetPixel_cell1:
  assumes wf: "well_formed bld fb" and x: "0 \<le> x" "x < columns_m fb"
    and y: "0 \<le> y" "y < height_m fb"
    and lanes: "pixel_lanes fb y = (fr, fg, fbl)"
    and c: "valid_cell fb d x' k"
  shows "cell1 (SetPixel bld x y r g b fb) d x' k =
     (if \<not> y div rows_m fb < 3 \<and> d = y mod double_rows_m fb \<and> x' = x
         \<and> int kBitPlanes - int (pwm_bits_m fb) \<le> k
      then write_lanes fr fg fbl (MapColor bld fb r)
             (MapColor bld fb (if PANEL_SWAP_G_B bld then b else g))
             (MapColor bld fb (if PANEL_SWAP_G_B bld then g else b)) k (cell1 fb d x' k)
      else cell1 fb d x' k)"
proof (cases "y div rows_m fb < 3")
  case True
  then show ?thesis
    by (simp add: SetPixel_in_range [OF wf x y lanes refl refl refl refl])
next
  case False
  have len: "length (bitplane_buffer_1 fb) = nat (double_rows_m fb * columns_m fb * int kBitPlanes)"
    using high_chain_needs_cm5 [OF wf y False] by (rule well_formed_lengths(2) [OF wf])
  show ?thesis
    using SetPixel_planes_cell [OF c pixel_start_cell [OF wf x] len]
    by (simp add: SetPixel_in_range [OF wf x y lanes refl refl refl refl] False cell1_def [of fb])
qed

lemma Fill_cell0:
  assumes wf: "well_formed bld fb" and c: "valid_cell fb d x k"
  shows "cell0 (Fill bld r g b fb) d x k =
     (if int kBitPlanes - int (pwm_bits_m fb) \<le> k
      then plane_bits0 bld (MapColor bld fb r)
             (MapColor bld fb (if PANEL_SWAP_G_B bld then b else g))
             (MapColor bld fb (if PANEL_SWAP_G_B bld then g else b)) k
      else cell0 fb d x k)"
  using Fill_planes_cell [OF c well_formed_lengths(3) [OF wf] well_formed_lengths(1) [OF wf]]
  by (simp add: Fill_def Let_def cell0_def ValueAt_def)

lemma Fill_cell1:
  assumes wf: "well_formed bld fb" and c: "valid_cell fb d x k" and cm5: "CM_5_CHAIN_SUPPORT bld"
  shows "cell1 (Fill bld r g b fb) d x k =
     (if int kBitPlanes - int (pwm_bits_m fb) \<le> k
      then plane_bits1 (MapColor bld fb r)
             (MapColor bld fb (if PANEL_SWAP_G_B bld then b else g))
             (MapColor bld fb (if PANEL_SWAP_G_B bld then g else b)) k
      else cell1 fb d x k)"
  using Fill_planes_cell [OF c well_formed_lengths(3) [OF wf] well_formed_lengths(2) [OF wf cm5]] cm5
  by (simp add: Fill_def Let_def cell1_def ValueAt_def)

lemma Clear_cell0:
  assumes wf: "well_formed bld fb" and c: "valid_cell fb d x k"
    and ni: "\<not> INVERSE_RGB_DISPLAY_COLORS bld"
  shows "cell0 (Clear bld fb) d x k = {}"
proof -
  have "nat (ValueAt fb d x k) < nat (double_rows_m fb * columns_m fb * int kBitPlanes)"
    using valid_cell_index [OF c well_formed_lengths(1) [OF wf]] well_formed_lengths(1) [OF wf]
    by simp
  then show ?thesis
    using ni by (simp add: Clear_def Let_def cell0_def ValueAt_def nth_append)
qed

lemma Clear_cell1:
  assumes wf: "well_formed bld fb" and c: "valid_cell fb d x k"
    and ni: "\<not> INVERSE_RGB_DISPLAY_COLORS bld" and cm5: "CM_5_CHAIN_SUPPORT bld"
  shows "cell1 (Clear bld fb) d x k = {}"
proof -
  have "nat (ValueAt fb d x k) < nat (double_rows_m fb * columns_m fb * int kBitPlanes)"
    using valid_cell_index [OF c well_formed_lengths(2) [OF wf cm5]] well_formed_lengths(2) [OF wf cm5]
    by simp
  then show ?thesis
    using ni cm5 by (simp add: Clear_def Let_def cell1_def ValueAt_def nth_append)
qed

subsection \<open>Reading a pixel back\<close>

lemma reassemble_bit: "bit (reassemble f ks) n = (n \<in> set ks \<and> f n \<and> n < 16)"
  by (induction ks) (auto simp: bit_simps)

lemma planes_mask_bit: "bit (planes_mask pwm) n = (kBitPlanes - pwm \<le> n \<and> n < kBitPlanes)"
  by (auto simp: planes_mask_def bit_simps kBitPlanes_def)

lemma reassemble_planes:
  assumes "\<And>k. kBitPlanes - pwm \<le> k \<Longrightarrow> k < kBitPlanes \<Longrightarrow> f k = bit v k"
  shows "reassemble f [kBitPlanes - pwm..<kBitPlanes] = v AND planes_mask pwm"
proof (rule bit_word_eqI)
  fix n assume "n < LENGTH(16)"
  then show "bit (reassemble f [kBitPlanes - pwm..<kBitPlanes]) n = bit (v AND planes_mask pwm) n"
    using assms [of n] by (auto simp: reassemble_bit planes_mask_bit bit_simps kBitPlanes_def)
qed

lemma lane_pins_distinct:
  assumes "lane_pins c u = (fr, fg, fbl)"
  shows "fr \<noteq> fg" "fr \<noteq> fbl" "fg \<noteq> fbl"
  using assms by (auto simp: lane_pins_def split: if_splits)

lemma write_lanes_mem:
  assumes "fr \<noteq> fg" "fr \<noteq> fbl" "fg \<noteq> fbl"
  shows "(fr \<in> write_lanes fr fg fbl red green blue k w) = bit red (nat k)"
    and "(fg \<in> write_lanes fr fg fbl red green blue k w) = bit green (nat k)"
    and "(fbl \<in> write_lanes fr fg fbl red green blue k w) = bit blue (nat k)"
  using assms by (auto simp: write_lanes_def assign_def)

lemma pixel_lanes_SetPixel [simp]:
  "pixel_lanes (SetPixel bld x y r g b fb) y' = pixel_lanes fb y'"
  by (simp add: pixel_lanes_def)

lemma pixel_word_SetPixel:
  assumes wf: "well_formed bld fb" and x: "0 \<le> x" "x < columns_m fb"
    and y: "0 \<le> y" "y < height_m fb"
    and lanes: "pixel_lanes fb y = (fr, fg, fbl)"
    and k: "int kBitPlanes - int (pwm_bits_m fb) \<le> k" "k < int kBitPlanes"
  shows "pixel_word (SetPixel bld x y r g b fb) x y k =
           write_lanes fr fg fbl (MapColor bld fb r)
             (MapColor bld fb (if PANEL_SWAP_G_B bld then b else g))
             (MapColor bld fb (if PANEL_SWAP_G_B bld then g else b)) k (pixel_word fb x y k)"
proof -
  have c: "valid_cell fb (y mod double_rows_m fb) x k"
    using pixel_start_cell [OF wf x, of y] k by (simp add: valid_cell_def)
  show ?thesis
    using k(1) by (simp add: pixel_word_def SetPixel_cell0 [OF wf x y lanes c]
        SetPixel_cell1 [OF wf x y lanes c])
qed

lemma read_back_SetPixel:
  assumes wf: "well_formed bld fb" and x: "0 \<le> x" "x < columns_m fb"
    and y: "0 \<le> y" "y < height_m fb"
  shows "read_back (SetPixel bld x y r g b fb) x y =
     (MapColor bld fb r AND planes_mask (pwm_bits_m fb),
      MapColor bld fb (if PANEL_SWAP_G_B bld then b else g) AND planes_mask (pwm_bits_m fb),
      MapColor bld fb (if PANEL_SWAP_G_B bld then g else b) AND planes_mask (pwm_bits_m fb))"
proof -
  obtain fr fg fbl where lanes: "pixel_lanes fb y = (fr, fg, fbl)"
    by (cases "pixel_lanes fb y") blast
  then have d: "fr \<noteq> fg" "fr \<noteq> fbl" "fg \<noteq> fbl"
    unfolding pixel_lanes_def by (rule lane_pins_distinct)+
  have pwm: "pwm_bits_m fb \<le> kBitPlanes"
    using wf by (simp add: well_formed_def)
  have w: "pixel_word (SetPixel bld x y r g b fb) x y (int k) =
           write_lanes fr fg fbl (MapColor bld fb r)
             (MapColor bld fb (if PANEL_SWAP_G_B bld then b else g))
             (MapColor bld fb (if PANEL_SWAP_G_B bld then g else b)) (int k) (pixel_word fb x y (int k))"
    if "kBitPlanes - pwm_bits_m fb \<le> k" "k < kBitPlanes" for k
    using that pwm by (intro pixel_word_SetPixel [OF wf x y lanes]) simp_all
  let ?planes = "[kBitPlanes - pwm_bits_m fb..<kBitPlanes]"
  let ?fb' = "SetPixel bld x y r g b fb"
  have 1: "reassemble (\<lambda>k. fr \<in> pixel_word ?fb' x y (int k)) ?planes =
           MapColor bld fb r AND planes_mask (pwm_bits_m fb)"
    by (rule reassemble_planes) (simp add: w write_lanes_mem [OF d])
  have 2: "reassemble (\<lambda>k. fg \<in> pixel_word ?fb' x y (int k)) ?planes =
           MapColor bld fb (if PANEL_SWAP_G_B bld then b else g) AND planes_mask (pwm_bits_m fb)"
    by (rule reassemble_planes) (simp add: w write_lanes_mem [OF d])
  have 3: "reassemble (\<lambda>k. fbl \<in> pixel_word ?fb' x y (int k)) ?planes =
           MapColor bld fb (if PANEL_SWAP_G_B bld then g else b) AND planes_mask (pwm_bits_m fb)"
    by (rule reassemble_planes) (simp add: w write_lanes_mem [OF d])
  have "read_back ?fb' x y =
          (reassemble (\<lambda>k. fr \<in> pixel_word ?fb' x y (int k)) ?planes,
           reassemble (\<lambda>k. fg \<in> pixel_word ?fb' x y (int k)) ?planes,
           reassemble (\<lambda>k. fbl \<in> pixel_word ?fb' x y (int k)) ?planes)"
    by (simp add: read_back_def lanes Let_def)
  then show ?thesis
    by (simp only: 1 2 3)
qed

subsection \<open>Values of the luminance map\<close>

lemma table_nth:
  "k < 25600 \<Longrightarrow>
   CreateLuminanceCIE1931LookupTable ! k =
     luminance_cie1931 (of_nat (k div 100)) (of_nat (k mod 100 + 1))"
  by (simp add: CreateLuminanceCIE1931LookupTable_def)

lemma MapColor_corrected:
  assumes "do_luminance_correct_m fb" and "1 \<le> brightness_m fb" and "brightness_m fb \<le> 100"
  shows "MapColor bld fb c = COLOR_OUT_BITS bld (luminance_cie1931 c (of_nat (brightness_m fb)))"
proof -
  define j where "j = brightness_m fb - 1"
  have j: "j < 100" "brightness_m fb = j + 1"
    using assms(2,3) by (simp_all add: j_def)
  have c: "unat c < 256"
    using unsigned_less [of c, where ?'a = nat] by simp
  have i: "nat (uint c * 100 + (int (brightness_m fb) - 1)) = unat c * 100 + j"
    by (simp add: j(2) nat_add_distrib nat_mult_distrib)
  have k: "unat c * 100 + j < 25600"
    using c j(1) by linarith
  have dm: "(unat c * 100 + j) div 100 = unat c" "(unat c * 100 + j) mod 100 = j"
    using j(1) by simp_all
  have "CreateLuminanceCIE1931LookupTable ! (unat c * 100 + j) =
          luminance_cie1931 c (of_nat (brightness_m fb))"
    by (simp only: table_nth [OF k] dm j(2)) simp
  then show ?thesis
    using assms(1) by (simp add: MapColor_def i)
qed

lemma luminance_value_255_100: "luminance_cie1931_value 255 100 = 2047"
  by (simp add: luminance_cie1931_value_def kBitPlanes_def Let_def)

lemma luminance_value_0: "luminance_cie1931_value 0 v = 0"
  by (simp add: luminance_cie1931_value_def Let_def)

lemma luminance_value_15_15: "luminance_cie1931_value 15 15 = 921150 / 460173"
  by (simp add: luminance_cie1931_value_def kBitPlanes_def Let_def)

lemma spec_L_value_15_15: "spec_L_value 15 15 = 921150 / 460683"
  by (simp add: spec_L_value_def kBitPlanes_def Let_def)

lemma luminance_255_100: "luminance_cie1931 255 100 = 2047"
  by (simp add: luminance_cie1931_def luminance_value_255_100)

lemma luminance_0: "luminance_cie1931 0 v = 0"
  by (simp add: luminance_cie1931_def luminance_value_0)

lemma floor_luminance_value_15_15: "\<lfloor>luminance_cie1931_value 15 15\<rfloor> = 2"
  unfolding luminance_value_15_15 by (rule floor_unique) simp_all

lemma luminance_15_15: "luminance_cie1931 15 15 = 2"
  using floor_luminance_value_15_15 by (simp add: luminance_cie1931_def)

lemma spec_L_15_15: "spec_L 15 15 = 1"
  unfolding spec_L_def spec_L_value_15_15 by (rule floor_unique) simp_all

text \<open>
  C1, at input byte 15 and brightness 15, default build, luminance correction on. The
  code divides by 902.3 in the linear part of the curve, the curve of the spec by 903.3.
  Here \<open>x = 15 * 15 / 255 \<le> 8\<close>; the expression of the code is about 2.0018 and
  \<^verbatim>\<open>MapColor\<close> returns 2, the curve of the spec is about 1.9995 and truncates to 1. Both
  values are further from the next integer than the rounding of single and double
  precision arithmetic can move them.
\<close>

theorem MapColor_differs_from_spec_curve:
  "MapColor default_build (example_fb\<lparr>brightness_m := 15\<rparr>) 15 = 2
   \<and> spec_L 15 15 = 1
   \<and> 2 + 1 / 1000 < luminance_cie1931_value 15 15
   \<and> luminance_cie1931_value 15 15 < 3 - 1 / 1000
   \<and> 1 + 1 / 1000 < spec_L_value 15 15
   \<and> spec_L_value 15 15 < 2 - 1 / 10000"
proof -
  have "MapColor default_build (example_fb\<lparr>brightness_m := 15\<rparr>) 15 = 2"
    using MapColor_corrected [where fb = "example_fb\<lparr>brightness_m := 15\<rparr>"
        and bld = default_build and c = 15]
    by (simp add: example_fb_fields COLOR_OUT_BITS_def default_build_def luminance_15_15)
  then show ?thesis
    by (simp add: spec_L_15_15 luminance_value_15_15 spec_L_value_15_15)
qed

subsection \<open>The example framebuffer\<close>

lemma example_fb_well_formed: "well_formed default_build example_fb"
  using example_fb_eq by (rule ctor_well_formed)

lemma example_fb_cell0:
  assumes "valid_cell example_fb d x k"
  shows "cell0 example_fb d x k = {}"
proof -
  have "nat (ValueAt example_fb d x k) < length (bitplane_buffer_0 example_fb)"
    using assms by (rule valid_cell_index) (simp add: example_fb_fields kBitPlanes_def)
  then show ?thesis
    by (simp add: cell0_def example_fb_fields)
qed

lemma MapColor_pwm [simp]: "MapColor bld (fb\<lparr>pwm_bits_m := p\<rparr>) c = MapColor bld fb c"
  by (simp add: MapColor_def)

lemma example_MapColor:
  "MapColor default_build example_fb 255 = 2047" "MapColor default_build example_fb 0 = 0"
  using MapColor_corrected [where fb = example_fb and bld = default_build and c = 255]
    MapColor_corrected [where fb = example_fb and bld = default_build and c = 0]
  by (simp_all add: example_fb_fields COLOR_OUT_BITS_def default_build_def luminance_255_100
      luminance_0)

lemma example_lanes: "pixel_lanes example_fb 0 = (p0_r1, p0_g1, p0_b1)"
  by (simp add: pixel_lanes_def lane_pins_def example_fb_fields)

lemma bit_2047: "bit (2047 :: 16 word) n = (n < 11)"
proof -
  have "(2047 :: 16 word) = mask 11"
    by (simp add: mask_eq_exp_minus_1)
  then have "bit (2047 :: 16 word) n = bit (mask 11 :: 16 word) n"
    by (simp only:)
  then show ?thesis
    by (simp only: bit_mask_iff) auto
qed

lemma bit_2047_int: "bit (2047 :: int) n = (n < 11)"
proof -
  have "(2047 :: int) = mask 11"
    by (simp add: mask_eq_exp_minus_1)
  then have "bit (2047 :: int) n = bit (mask 11 :: int) n"
    by (simp only:)
  then show ?thesis
    by (simp only: bit_mask_iff) auto
qed

lemma write_red_lane:
  assumes "0 \<le> k" and "k < 11"
  shows "write_lanes p0_r1 p0_g1 p0_b1 2047 0 0 k {} = {p0_r1}"
proof -
  have "nat k < 11" using assms by simp
  then have "bit (2047 :: 16 word) (nat k)"
    by (simp only: bit_2047)
  then show ?thesis
    by (simp add: write_lanes_def del: bit_numeral_word_iff)
qed

lemma swap_default [simp]: "PANEL_SWAP_G_B default_build = False"
  by (simp add: PANEL_SWAP_G_B_def default_build_def)

lemma example_SetPixel_cell0:
  assumes "valid_cell example_fb d x k" and "p \<le> 11" and "1 \<le> p"
  shows "cell0 (SetPixel default_build 0 0 255 0 0 (example_fb\<lparr>pwm_bits_m := p\<rparr>)) d x k =
           (if d = 0 \<and> x = 0 \<and> 11 - int p \<le> k then {p0_r1} else {})"
proof -
  let ?fb = "example_fb\<lparr>pwm_bits_m := p\<rparr>"
  have wf: "well_formed default_build ?fb"
    using example_fb_well_formed assms(2,3) by (simp add: well_formed_def kBitPlanes_def)
  have c: "valid_cell ?fb d x k"
    using assms(1) by (simp add: valid_cell_def)
  have l: "pixel_lanes ?fb 0 = (p0_r1, p0_g1, p0_b1)"
    using example_lanes by (simp add: pixel_lanes_def)
  have o: "cell0 ?fb d x k = {}"
    using example_fb_cell0 [OF assms(1)] by (simp add: cell0_def ValueAt_def)
  have k: "0 \<le> k" "k < 11"
    using assms(1) by (simp_all add: valid_cell_def kBitPlanes_def)
  have f: "rows_m ?fb = 32" "double_rows_m ?fb = 16" "pwm_bits_m ?fb = p"
    by (simp_all add: example_fb_fields)
  have "cell0 (SetPixel default_build 0 0 255 0 0 ?fb) d x k =
     (if (0::int) div rows_m ?fb < 3 \<and> d = 0 mod double_rows_m ?fb \<and> x = 0
         \<and> int kBitPlanes - int (pwm_bits_m ?fb) \<le> k
      then write_lanes p0_r1 p0_g1 p0_b1 (MapColor default_build ?fb 255)
             (MapColor default_build ?fb (if PANEL_SWAP_G_B default_build then 0 else 0))
             (MapColor default_build ?fb (if PANEL_SWAP_G_B default_build then 0 else 0)) k (cell0 ?fb d x k)
      else cell0 ?fb d x k)"
    by (rule SetPixel_cell0 [OF wf _ _ _ _ l c]) (simp_all add: example_fb_fields)
  then have "cell0 (SetPixel default_build 0 0 255 0 0 ?fb) d x k =
     (if d = 0 \<and> x = 0 \<and> 11 - int p \<le> k
      then write_lanes p0_r1 p0_g1 p0_b1 2047 0 0 k {} else {})"
    unfolding o by (simp add: example_MapColor f kBitPlanes_def)
  then show ?thesis
    using k by (simp add: write_red_lane)
qed

subsection \<open>The scenario S1 and the round trip\<close>

lemma example_fb_pwm: "example_fb\<lparr>pwm_bits_m := 11\<rparr> = example_fb"
  by (simp add: example_fb_fields)

lemma example_red_cell0:
  assumes "valid_cell example_fb d x k"
  shows "cell0 (SetPixel default_build 0 0 255 0 0 example_fb) d x k =
           (if d = 0 \<and> x = 0 then {p0_r1} else {})"
proof -
  have "0 \<le> k" using assms by (simp add: valid_cell_def)
  then show ?thesis
    using example_SetPixel_cell0 [OF assms, of 11] by (simp add: example_fb_pwm)
qed

lemma example_cells: "valid_cell example_fb 0 0 10" "valid_cell example_fb 0 0 0"
  "valid_cell example_fb 3 7 2"
  by (simp_all add: valid_cell_def example_fb_fields kBitPlanes_def)

text \<open>
  C4, as the code has it. The scenario S1: default build, 32 rows, 32 columns, one chain,
  11 PWM bits, brightness 100, luminance correction on, buffer as cleared by the
  constructor. After \<^verbatim>\<open>SetPixel(0, 0, 255, 0, 0)\<close> the word at double row 0, column 0,
  plane 10 has \<^verbatim>\<open>p0_r1\<close> set and no other field; so has the word at plane 0, since
  \<^verbatim>\<open>MapColor(255)\<close> is 2047 and has all 11 bits set; every word of another column, and the
  second buffer, is as it was, that is cleared.
\<close>

theorem SetPixel_red_scenario:
  "Framebuffer_ctor default_build 32 32 1 = Some example_fb
   \<and> pwm_bits_m example_fb = 11 \<and> brightness_m example_fb = 100
   \<and> do_luminance_correct_m example_fb
   \<and> MapColor default_build example_fb 255 = 2047
   \<and> cell0 (SetPixel default_build 0 0 255 0 0 example_fb) 0 0 10 = {p0_r1}
   \<and> cell0 (SetPixel default_build 0 0 255 0 0 example_fb) 0 0 0 = {p0_r1}
   \<and> (\<forall>d x k. valid_cell example_fb d x k \<and> x \<noteq> 0 \<longrightarrow>
         cell0 (SetPixel default_build 0 0 255 0 0 example_fb) d x k = cell0 example_fb d x k
         \<and> cell0 example_fb d x k = {})
   \<and> bitplane_buffer_1 (SetPixel default_build 0 0 255 0 0 example_fb) = bitplane_buffer_1 example_fb"
proof -
  have 1: "pwm_bits_m example_fb = 11" "brightness_m example_fb = 100"
    "do_luminance_correct_m example_fb"
    by (simp_all add: example_fb_fields)
  have 2: "cell0 (SetPixel default_build 0 0 255 0 0 example_fb) 0 0 10 = {p0_r1}"
    "cell0 (SetPixel default_build 0 0 255 0 0 example_fb) 0 0 0 = {p0_r1}"
    by (simp_all add: example_red_cell0 example_cells)
  have 3: "\<forall>d x k. valid_cell example_fb d x k \<and> x \<noteq> 0 \<longrightarrow>
         cell0 (SetPixel default_build 0 0 255 0 0 example_fb) d x k = cell0 example_fb d x k
         \<and> cell0 example_fb d x k = {}"
    by (intro allI impI) (simp add: example_red_cell0 example_fb_cell0)
  have b1: "bitplane_buffer_1 example_fb = []"
    by (simp add: example_fb_fields)
  have "length (bitplane_buffer_1 (SetPixel default_build 0 0 255 0 0 example_fb)) = 0"
    by (simp add: b1)
  then have "bitplane_buffer_1 (SetPixel default_build 0 0 255 0 0 example_fb) = []"
    by (rule length_0_conv [THEN iffD1])
  then have 4: "bitplane_buffer_1 (SetPixel default_build 0 0 255 0 0 example_fb) =
      bitplane_buffer_1 example_fb"
    by (simp only: b1)
  show ?thesis
    by (intro conjI example_fb_eq 1 example_MapColor(1) 2 3 4)
qed

theorem SetPixel_red_scenario_witness:
  "valid_cell example_fb 3 7 2 \<and> (7::int) \<noteq> 0
   \<and> cell0 (SetPixel default_build 0 0 255 0 0 example_fb) 3 7 2 = cell0 example_fb 3 7 2
   \<and> cell0 example_fb 3 7 2 = {}"
proof -
  have h: "valid_cell example_fb 3 7 2 \<and> (7::int) \<noteq> 0"
    by (simp add: example_cells)
  from SetPixel_red_scenario have
    "\<forall>d x k. valid_cell example_fb d x k \<and> x \<noteq> 0 \<longrightarrow>
         cell0 (SetPixel default_build 0 0 255 0 0 example_fb) d x k = cell0 example_fb d x k
         \<and> cell0 example_fb d x k = {}"
    by (elim conjE)
  then have "cell0 (SetPixel default_build 0 0 255 0 0 example_fb) 3 7 2 = cell0 example_fb 3 7 2
         \<and> cell0 example_fb 3 7 2 = {}"
    using h by blast
  with h show ?thesis by simp
qed

text \<open>
  C4 as stated fails in its second part: the word at plane 0 has \<^verbatim>\<open>p0_r1\<close> set.
\<close>

theorem SetPixel_red_sets_plane_0:
  "p0_r1 \<in> cell0 (SetPixel default_build 0 0 255 0 0 example_fb) 0 0 0
   \<and> \<not> colors_off default_build (SetPixel default_build 0 0 255 0 0 example_fb) 0 0 0"
proof -
  have c: "cell0 (SetPixel default_build 0 0 255 0 0 example_fb) 0 0 0 = {p0_r1}"
    by (simp add: example_red_cell0 example_cells)
  have f: "INVERSE_RGB_DISPLAY_COLORS default_build = False"
    "ONLY_SINGLE_CHAIN default_build = False" "CM_5_CHAIN_SUPPORT default_build = False"
    by (simp_all add: default_build_def)
  show ?thesis
    by (simp add: colors_off_def color_pins0_def c f)
qed

text \<open>
  C5, as the code has it. For a well-formed framebuffer and a pixel in range, the values
  reassembled after \<^verbatim>\<open>SetPixel(x, y, r, g, b)\<close> from the stored bits of the planes
  \<open>[11 - pwm_bits, 11)\<close> are \<^verbatim>\<open>MapColor(r)\<close>, \<^verbatim>\<open>MapColor(g')\<close> and \<^verbatim>\<open>MapColor(b')\<close> restricted
  to the bits \<open>[11 - pwm_bits, 11)\<close>, where \<open>(g', b')\<close> is \<open>(b, g)\<close> under
  \<^verbatim>\<open>RGB_SWAP_GREEN_BLUE\<close> and \<open>(g, b)\<close> otherwise.
\<close>

theorem SetPixel_round_trip:
  assumes "well_formed bld fb" and "0 \<le> x" and "x < columns_m fb"
    and "0 \<le> y" and "y < height_m fb"
  shows "read_back (SetPixel bld x y r g b fb) x y =
     (MapColor bld fb r AND planes_mask (pwm_bits_m fb),
      MapColor bld fb (if PANEL_SWAP_G_B bld then b else g) AND planes_mask (pwm_bits_m fb),
      MapColor bld fb (if PANEL_SWAP_G_B bld then g else b) AND planes_mask (pwm_bits_m fb))"
  using assms by (rule read_back_SetPixel)

lemma planes_mask_values: "planes_mask 11 = 2047" "planes_mask (Suc 0) = 1024"
  by (simp_all add: planes_mask_def kBitPlanes_def mask_eq_exp_minus_1)

theorem SetPixel_round_trip_witness:
  "well_formed default_build example_fb \<and> (0::int) \<le> 0 \<and> 0 < columns_m example_fb
   \<and> 0 < height_m example_fb
   \<and> read_back (SetPixel default_build 0 0 255 0 0 example_fb) 0 0 = (2047, 0, 0)"
proof -
  have h: "(0::int) \<le> 0" "0 < columns_m example_fb" "0 < height_m example_fb"
    by (simp_all add: example_fb_fields)
  have p: "pwm_bits_m example_fb = 11"
    by (simp add: example_fb_fields)
  show ?thesis
    using SetPixel_round_trip [OF example_fb_well_formed h(1,2) h(1,3), of 255 0 0] h
    by (simp add: example_fb_well_formed example_MapColor p planes_mask_values)
qed

text \<open>
  C5 as stated fails when fewer than 11 planes are displayed: after \<^verbatim>\<open>SetPWMBits(1)\<close> on
  the example framebuffer, \<^verbatim>\<open>SetPixel(0, 0, 255, 0, 0)\<close> stores bit 10 of red only; the
  read-back is 1024 and \<^verbatim>\<open>MapColor(255)\<close> is 2047.
\<close>

theorem SetPixel_round_trip_loses_low_planes:
  "well_formed default_build (snd (SetPWMBits 1 example_fb))
   \<and> read_back (SetPixel default_build 0 0 255 0 0 (snd (SetPWMBits 1 example_fb))) 0 0
       = (1024, 0, 0)
   \<and> MapColor default_build (snd (SetPWMBits 1 example_fb)) 255 = 2047
   \<and> read_back (SetPixel default_build 0 0 255 0 0 (snd (SetPWMBits 1 example_fb))) 0 0
       \<noteq> (MapColor default_build (snd (SetPWMBits 1 example_fb)) 255,
           MapColor default_build (snd (SetPWMBits 1 example_fb)) 0,
           MapColor default_build (snd (SetPWMBits 1 example_fb)) 0)"
proof -
  let ?fb = "snd (SetPWMBits 1 example_fb)"
  have e: "?fb = example_fb\<lparr>pwm_bits_m := 1\<rparr>"
    by (simp add: SetPWMBits_def kBitPlanes_def)
  have wf: "well_formed default_build ?fb"
    using example_fb_well_formed by (rule SetPWMBits_well_formed)
  have h: "(0::int) \<le> 0" "0 < columns_m ?fb" "0 < height_m ?fb"
    unfolding e by (simp_all add: example_fb_fields)
  have "read_back (SetPixel default_build 0 0 255 0 0 ?fb) 0 0 = (1024, 0, 0)"
    using read_back_SetPixel [OF wf h(1,2) h(1,3), of 255 0 0]
    by (simp add: e example_MapColor planes_mask_values)
  then show ?thesis
    using wf by (simp add: e example_MapColor)
qed

subsection \<open>The planes below the displayed ones\<close>

lemma plane_bit_ffff:
  assumes "0 \<le> k" and "k < 11"
  shows "((0xffff :: 16 word) AND push_bit (nat k) 1 = push_bit (nat k) 1) = True"
proof -
  have n: "nat k < 16" using assms by simp
  have "(0xffff :: 16 word) = - 1" by simp
  then have "bit (0xffff :: 16 word) (nat k)"
    using n by (simp only: bit_minus_1_iff) simp
  then show ?thesis
    using and_plane_bit [OF n, of "0xffff"] by (simp add: push_bit_eq_mult)
qed

lemma plane_bits0_all_ones:
  assumes "0 \<le> k" and "k < 11"
  shows "plane_bits0 bld 0xffff 0xffff 0xffff k = color_pins0 bld"
  unfolding plane_bits0_def Let_def plane_bit_ffff [OF assms]
  by (auto simp: color_pins0_def)

lemma plane_bits1_all_ones:
  assumes "0 \<le> k" and "k < 11"
  shows "plane_bits1 0xffff 0xffff 0xffff k = color_pins1"
  unfolding plane_bits1_def Let_def plane_bit_ffff [OF assms]
  by (auto simp: color_pins1_def)

lemma ctor_before_Clear:
  assumes "Framebuffer_ctor bld rows columns parallel = Some fb"
  obtains fb0 where "fb = Clear bld fb0" "well_formed bld fb0" "pwm_bits_m fb0 = kBitPlanes"
    "do_luminance_correct_m fb0" "brightness_m fb0 = 100"
proof -
  let ?dr = "rows div SUB_PANELS bld"
  let ?n = "?dr * columns * int kBitPlanes"
  let ?fb0 = "\<lparr>rows_m = rows, parallel_m = parallel, height_m = rows * parallel,
                columns_m = columns, pwm_bits_m = kBitPlanes, do_luminance_correct_m = True,
                brightness_m = 100, double_rows_m = ?dr, row_mask_m = ?dr - 1,
                bitplane_buffer_0 = replicate (nat ?n) IoBits_default,
                bitplane_buffer_1 =
                  (if CM_5_CHAIN_SUPPORT bld then replicate (nat ?n) IoBits_default else [])\<rparr>"
  from assms have fb: "fb = Clear bld ?fb0"
    and g: "rows = 8 \<or> rows = 16 \<or> rows = 32 \<or> rows = 64" "1 \<le> parallel"
      "parallel \<le> (if CM_5_CHAIN_SUPPORT bld then 5 else 3)"
      "\<not> (ONLY_SINGLE_CHAIN bld \<and> parallel > 1)" "0 \<le> ?n" "?n \<le> 2147483647"
    by (auto simp: Framebuffer_ctor_def Let_def split: if_splits)
  have "0 < ?dr" using g(1) by (auto simp: SUB_PANELS_def)
  with g(5) have "0 \<le> columns"
    by (simp add: kBitPlanes_def zero_le_mult_iff)
  with g have "well_formed bld ?fb0"
    by (auto simp: well_formed_def kBitPlanes_def)
  then show ?thesis
    using fb by (intro that [of ?fb0]) simp_all
qed

lemma MapColor_zero_inverse:
  assumes "INVERSE_RGB_DISPLAY_COLORS bld"
    and "1 \<le> brightness_m fb" and "brightness_m fb \<le> 100"
  shows "MapColor bld fb 0 = 0xffff"
proof (cases "do_luminance_correct_m fb")
  case True
  then show ?thesis
    using assms by (simp add: MapColor_corrected luminance_0 COLOR_OUT_BITS_def)
next
  case False
  then show ?thesis
    using assms(1) by (simp add: MapColor_def Let_def kBitPlanes_def COLOR_OUT_BITS_def)
qed

lemma low_planes_idleI:
  assumes "\<And>d x k. valid_cell fb d x k \<Longrightarrow> k < int kBitPlanes - int w \<Longrightarrow>
             cell0 fb d x k = idle_word0 bld"
    and "\<And>d x k. valid_cell fb d x k \<Longrightarrow> k < int kBitPlanes - int w \<Longrightarrow>
             CM_5_CHAIN_SUPPORT bld \<Longrightarrow> cell1 fb d x k = idle_word1 bld"
  shows "low_planes_idle bld fb w"
  using assms unfolding low_planes_idle_def by blast

lemma low_planes_idleD:
  assumes "low_planes_idle bld fb w" and "valid_cell fb d x k" and "k < int kBitPlanes - int w"
  shows "cell0 fb d x k = idle_word0 bld"
    and "CM_5_CHAIN_SUPPORT bld \<Longrightarrow> cell1 fb d x k = idle_word1 bld"
  using assms unfolding low_planes_idle_def by blast+

lemma low_planes_idle_Fill:
  assumes wf: "well_formed bld fb" and idle: "low_planes_idle bld fb w"
  shows "low_planes_idle bld (Fill bld r g b fb) (max w (pwm_bits_m fb))"
proof (rule low_planes_idleI)
  fix d x k
  assume "valid_cell (Fill bld r g b fb) d x k"
    and k: "k < int kBitPlanes - int (max w (pwm_bits_m fb))"
  then have c: "valid_cell fb d x k" by (simp add: valid_cell_def)
  from k have k': "k < int kBitPlanes - int w" "\<not> int kBitPlanes - int (pwm_bits_m fb) \<le> k"
    by simp_all
  show "cell0 (Fill bld r g b fb) d x k = idle_word0 bld"
    using low_planes_idleD(1) [OF idle c k'(1)] k'(2) by (simp add: Fill_cell0 [OF wf c])
  show "cell1 (Fill bld r g b fb) d x k = idle_word1 bld" if "CM_5_CHAIN_SUPPORT bld"
    using low_planes_idleD(2) [OF idle c k'(1) that] k'(2) by (simp add: Fill_cell1 [OF wf c that])
qed

lemma low_planes_idle_SetPixel:
  assumes wf: "well_formed bld fb" and idle: "low_planes_idle bld fb w"
  shows "low_planes_idle bld (SetPixel bld x y r g b fb) (max w (pwm_bits_m fb))"
proof (cases "x < 0 \<or> x \<ge> columns_m fb \<or> y < 0 \<or> y \<ge> height_m fb")
  case True
  then have "SetPixel bld x y r g b fb = fb"
    by (simp add: SetPixel_def)
  moreover have "low_planes_idle bld fb (max w (pwm_bits_m fb))"
    using idle unfolding low_planes_idle_def by auto
  ultimately show ?thesis by simp
next
  case False
  then have x: "0 \<le> x" "x < columns_m fb" and y: "0 \<le> y" "y < height_m fb"
    by simp_all
  obtain fr fg fbl where lanes: "pixel_lanes fb y = (fr, fg, fbl)"
    by (cases "pixel_lanes fb y") blast
  show ?thesis
  proof (rule low_planes_idleI)
    fix d x' k
    assume "valid_cell (SetPixel bld x y r g b fb) d x' k"
      and k: "k < int kBitPlanes - int (max w (pwm_bits_m fb))"
    then have c: "valid_cell fb d x' k" by (simp add: valid_cell_def)
    from k have k': "k < int kBitPlanes - int w" "\<not> int kBitPlanes - int (pwm_bits_m fb) \<le> k"
      by simp_all
    show "cell0 (SetPixel bld x y r g b fb) d x' k = idle_word0 bld"
      using low_planes_idleD(1) [OF idle c k'(1)] k'(2)
      by (simp add: SetPixel_cell0 [OF wf x y lanes c])
    show "cell1 (SetPixel bld x y r g b fb) d x' k = idle_word1 bld" if "CM_5_CHAIN_SUPPORT bld"
      using low_planes_idleD(2) [OF idle c k'(1) that] k'(2)
      by (simp add: SetPixel_cell1 [OF wf x y lanes c])
  qed
qed

lemma low_planes_idle_Clear:
  assumes wf: "well_formed bld fb" and idle: "low_planes_idle bld fb w"
    and le: "INVERSE_RGB_DISPLAY_COLORS bld \<Longrightarrow> w \<le> pwm_bits_m fb"
  shows "low_planes_idle bld (Clear bld fb) 0"
proof (rule low_planes_idleI)
  fix d x k
  assume "valid_cell (Clear bld fb) d x k"
  then have c: "valid_cell fb d x k" by (simp add: valid_cell_def)
  then have k: "0 \<le> k" "k < 11" by (simp_all add: valid_cell_def kBitPlanes_def)
  have br: "1 \<le> brightness_m fb" "brightness_m fb \<le> 100"
    using wf by (simp_all add: well_formed_def)
  have m: "MapColor bld fb 0 = 0xffff" if "INVERSE_RGB_DISPLAY_COLORS bld"
    using that br by (rule MapColor_zero_inverse)
  have low: "k < int kBitPlanes - int w"
    if "INVERSE_RGB_DISPLAY_COLORS bld" "\<not> int kBitPlanes - int (pwm_bits_m fb) \<le> k"
    using le [OF that(1)] that(2) by simp
  show "cell0 (Clear bld fb) d x k = idle_word0 bld"
  proof (cases "INVERSE_RGB_DISPLAY_COLORS bld")
    case True
    note inv = True
    show ?thesis
    proof (cases "int kBitPlanes - int (pwm_bits_m fb) \<le> k")
      case True
      then show ?thesis
        using inv k
        by (simp add: Clear_def Fill_cell0 [OF wf c] m plane_bits0_all_ones idle_word0_def)
    next
      case False
      then show ?thesis
        using inv low_planes_idleD(1) [OF idle c low [OF inv False]]
        by (simp add: Clear_def Fill_cell0 [OF wf c])
    qed
  next
    case False
    then show ?thesis
      by (simp add: Clear_cell0 [OF wf c] idle_word0_def)
  qed
  show "cell1 (Clear bld fb) d x k = idle_word1 bld" if cm5: "CM_5_CHAIN_SUPPORT bld"
  proof (cases "INVERSE_RGB_DISPLAY_COLORS bld")
    case True
    note inv = True
    show ?thesis
    proof (cases "int kBitPlanes - int (pwm_bits_m fb) \<le> k")
      case True
      then show ?thesis
        using inv k
        by (simp add: Clear_def Fill_cell1 [OF wf c cm5] m plane_bits1_all_ones idle_word1_def)
    next
      case False
      then show ?thesis
        using inv low_planes_idleD(2) [OF idle c low [OF inv False] cm5]
        by (simp add: Clear_def Fill_cell1 [OF wf c cm5])
    qed
  next
    case False
    then show ?thesis
      by (simp add: Clear_cell1 [OF wf c _ cm5] idle_word1_def)
  qed
qed

lemma ctor_low_planes_idle:
  assumes "Framebuffer_ctor bld rows columns parallel = Some fb"
  shows "low_planes_idle bld fb 0"
proof -
  obtain fb0 where fb: "fb = Clear bld fb0" and wf: "well_formed bld fb0"
    and p: "pwm_bits_m fb0 = kBitPlanes" and l: "do_luminance_correct_m fb0"
    and br: "brightness_m fb0 = 100"
    using ctor_before_Clear [OF assms] by blast
  show ?thesis
  proof (rule low_planes_idleI)
    fix d x k
    assume "valid_cell fb d x k"
    then have c: "valid_cell fb0 d x k" by (simp add: fb valid_cell_def)
    then have k: "0 \<le> k" "k < 11" by (simp_all add: valid_cell_def kBitPlanes_def)
    have m: "MapColor bld fb0 0 = 0xffff" if "INVERSE_RGB_DISPLAY_COLORS bld"
      using that l br by (intro MapColor_zero_inverse) simp_all
    show "cell0 fb d x k = idle_word0 bld"
    proof (cases "INVERSE_RGB_DISPLAY_COLORS bld")
      case True
      then show ?thesis
        using k by (simp add: fb Clear_def Fill_cell0 [OF wf c] p m plane_bits0_all_ones idle_word0_def)
    next
      case False
      then show ?thesis
        by (simp add: fb Clear_cell0 [OF wf c] idle_word0_def)
    qed
    show "cell1 fb d x k = idle_word1 bld" if cm5: "CM_5_CHAIN_SUPPORT bld"
    proof (cases "INVERSE_RGB_DISPLAY_COLORS bld")
      case True
      then show ?thesis
        using k by (simp add: fb Clear_def Fill_cell1 [OF wf c cm5] p m plane_bits1_all_ones idle_word1_def)
    next
      case False
      then show ?thesis
        by (simp add: fb Clear_cell1 [OF wf c _ cm5] idle_word1_def)
    qed
  qed
qed

lemma cell_pwm [simp]:
  "cell0 (fb\<lparr>pwm_bits_m := p\<rparr>) = cell0 fb" "cell1 (fb\<lparr>pwm_bits_m := p\<rparr>) = cell1 fb"
  "valid_cell (fb\<lparr>pwm_bits_m := p\<rparr>) = valid_cell fb"
  by (intro ext; simp add: cell0_def cell1_def valid_cell_def ValueAt_def)+

lemma cell_brightness [simp]:
  "cell0 (fb\<lparr>brightness_m := p\<rparr>) = cell0 fb" "cell1 (fb\<lparr>brightness_m := p\<rparr>) = cell1 fb"
  "valid_cell (fb\<lparr>brightness_m := p\<rparr>) = valid_cell fb"
  by (intro ext; simp add: cell0_def cell1_def valid_cell_def ValueAt_def)+

lemma run_mutator_low_planes_idle:
  assumes wf: "well_formed bld fb" and idle: "low_planes_idle bld fb w"
    and run: "run_mutator bld m fb = Some fb1"
    and wp: "written_pwm bld (columns_m fb) (height_m fb) (m # ms) (pwm_bits_m fb) w = Some P"
  shows "\<exists>w1. low_planes_idle bld fb1 w1
           \<and> written_pwm bld (columns_m fb1) (height_m fb1) ms (pwm_bits_m fb1) w1 = Some P"
proof (cases m)
  case Call_Clear
  then have fb1: "fb1 = Clear bld fb" using run by simp
  from wp Call_Clear have le: "INVERSE_RGB_DISPLAY_COLORS bld \<Longrightarrow> w \<le> pwm_bits_m fb"
    and r: "written_pwm bld (columns_m fb) (height_m fb) ms (pwm_bits_m fb) 0 = Some P"
    by (auto split: if_splits)
  show ?thesis
    using low_planes_idle_Clear [OF wf idle le] r by (intro exI [of _ 0]) (simp add: fb1)
next
  case (Call_Fill r g b)
  then have fb1: "fb1 = Fill bld r g b fb" using run by simp
  from wp Call_Fill
  have "written_pwm bld (columns_m fb) (height_m fb) ms (pwm_bits_m fb) (max w (pwm_bits_m fb)) = Some P"
    by simp
  then show ?thesis
    using low_planes_idle_Fill [OF wf idle]
    by (intro exI [of _ "max w (pwm_bits_m fb)"]) (simp add: fb1)
next
  case (Call_SetPixel x y r g b)
  then have fb1: "fb1 = SetPixel bld x y r g b fb" using run by simp
  show ?thesis
  proof (cases "x < 0 \<or> x \<ge> columns_m fb \<or> y < 0 \<or> y \<ge> height_m fb")
    case True
    then have same: "fb1 = fb"
      by (simp add: fb1 SetPixel_def)
    from wp Call_SetPixel True
    have "written_pwm bld (columns_m fb) (height_m fb) ms (pwm_bits_m fb) w = Some P"
      by simp
    then show ?thesis
      using idle by (intro exI [of _ w]) (simp add: same)
  next
    case False
    with wp Call_SetPixel
    have "written_pwm bld (columns_m fb) (height_m fb) ms (pwm_bits_m fb) (max w (pwm_bits_m fb)) = Some P"
      by simp
    then show ?thesis
      using low_planes_idle_SetPixel [OF wf idle]
      by (intro exI [of _ "max w (pwm_bits_m fb)"]) (simp add: fb1)
  qed
next
  case (Call_SetPWMBits v)
  then have fb1: "fb1 = snd (SetPWMBits v fb)" using run by simp
  have i: "low_planes_idle bld fb1 w"
    using idle unfolding fb1 low_planes_idle_def SetPWMBits_def by (simp split: if_splits)
  have f: "pwm_bits_m fb1 = (if unat v < 1 \<or> unat v > kBitPlanes then pwm_bits_m fb else unat v)"
    "columns_m fb1 = columns_m fb" "height_m fb1 = height_m fb"
    unfolding fb1 SetPWMBits_def by simp_all
  from wp Call_SetPWMBits
  have "written_pwm bld (columns_m fb1) (height_m fb1) ms (pwm_bits_m fb1) w = Some P"
    by (simp only: f written_pwm.simps)
  with i show ?thesis
    by (intro exI [of _ w] conjI)
next
  case (Call_SetBrightness v)
  then have "SetBrightness v fb = Some fb1" using run by simp
  then have fb1: "fb1 = fb\<lparr>brightness_m := unat v\<rparr>"
    by (simp add: SetBrightness_def split: if_splits)
  have "low_planes_idle bld fb1 w"
    using idle unfolding fb1 low_planes_idle_def by simp
  then show ?thesis
    using wp Call_SetBrightness by (intro exI [of _ w]) (simp add: fb1)
qed

lemma run_mutators_low_planes_idle:
  assumes "well_formed bld fb" and "low_planes_idle bld fb w"
    and "run_mutators bld ms fb = Some fb'"
    and "written_pwm bld (columns_m fb) (height_m fb) ms (pwm_bits_m fb) w = Some P"
  shows "low_planes_idle bld fb' P"
  using assms
proof (induction ms arbitrary: fb w)
  case Nil
  then show ?case by simp
next
  case (Cons m ms)
  from Cons.prems(3) obtain fb1 where m: "run_mutator bld m fb = Some fb1"
    and ms: "run_mutators bld ms fb1 = Some fb'"
    by (auto split: option.splits)
  obtain w1 where w1: "low_planes_idle bld fb1 w1"
    "written_pwm bld (columns_m fb1) (height_m fb1) ms (pwm_bits_m fb1) w1 = Some P"
    using run_mutator_low_planes_idle [OF Cons.prems(1,2) m Cons.prems(4)] by blast
  have "well_formed bld fb1"
    using Cons.prems(1) m by (rule run_mutator_well_formed)
  from this w1(1) ms w1(2) show ?case
    by (rule Cons.IH)
qed

lemma idle_colors_off:
  assumes "cell0 fb d x k = idle_word0 bld"
    and "CM_5_CHAIN_SUPPORT bld \<Longrightarrow> cell1 fb d x k = idle_word1 bld"
  shows "colors_off bld fb d x k"
  using assms by (simp add: colors_off_def idle_word0_def idle_word1_def)

lemma ctor_fields:
  assumes "Framebuffer_ctor bld rows columns parallel = Some fb"
  shows "columns_m fb = columns" and "height_m fb = rows * parallel"
    and "pwm_bits_m fb = kBitPlanes"
  using assms by (auto simp: Framebuffer_ctor_def Let_def split: if_splits)

lemma low_planes_off:
  assumes "Framebuffer_ctor bld rows columns parallel = Some fb0"
    and "run_mutators bld ms fb0 = Some fb"
    and "written_pwm bld columns (rows * parallel) ms kBitPlanes 0 = Some P"
    and "valid_cell fb d x k"
    and "k < int kBitPlanes - int P"
  shows "colors_off bld fb d x k"
proof -
  have "written_pwm bld (columns_m fb0) (height_m fb0) ms (pwm_bits_m fb0) 0 = Some P"
    using assms(3) by (simp only: ctor_fields [OF assms(1)])
  with ctor_well_formed [OF assms(1)] ctor_low_planes_idle [OF assms(1)] assms(2)
  have i: "low_planes_idle bld fb P"
    by (rule run_mutators_low_planes_idle)
  show ?thesis
    using low_planes_idleD [OF i assms(4,5)] by (rule idle_colors_off)
qed

lemma example_run_1:
  "run_mutators default_build [Call_SetPWMBits 5, Call_SetPixel 0 0 255 0 0] example_fb =
     Some (SetPixel default_build 0 0 255 0 0 (example_fb\<lparr>pwm_bits_m := 5\<rparr>))"
  by (simp add: SetPWMBits_def kBitPlanes_def)

lemma example_run_2:
  "run_mutators default_build [Call_SetPixel 0 0 255 0 0, Call_SetPWMBits 1] example_fb =
     Some ((SetPixel default_build 0 0 255 0 0 example_fb)\<lparr>pwm_bits_m := 1\<rparr>)"
  by (simp add: SetPWMBits_def kBitPlanes_def)

lemma example_fb_inverse_eq:
  "Framebuffer_ctor inverse_build 32 32 1 = Some example_fb_inverse"
  by (simp add: example_fb_inverse_def Framebuffer_ctor_def Let_def SUB_PANELS_def
      inverse_build_def default_build_def kBitPlanes_def)

lemma example_fb_inverse_fields:
  "columns_m example_fb_inverse = 32" "height_m example_fb_inverse = 32"
  "double_rows_m example_fb_inverse = 16" "pwm_bits_m example_fb_inverse = 11"
  "brightness_m example_fb_inverse = 100" "do_luminance_correct_m example_fb_inverse"
  by (simp_all add: example_fb_inverse_def Framebuffer_ctor_def Let_def SUB_PANELS_def
      inverse_build_def default_build_def kBitPlanes_def)

lemma inverse_build_flags:
  "INVERSE_RGB_DISPLAY_COLORS inverse_build" "\<not> ONLY_SINGLE_CHAIN inverse_build"
  "\<not> CM_5_CHAIN_SUPPORT inverse_build" "\<not> PANEL_SWAP_G_B inverse_build"
  by (simp_all add: inverse_build_def default_build_def PANEL_SWAP_G_B_def)

lemma example_run_3:
  "run_mutators inverse_build [Call_SetPixel 0 0 255 0 0, Call_Clear, Call_SetPWMBits 1]
     example_fb_inverse =
     Some ((Clear inverse_build (SetPixel inverse_build 0 0 255 0 0 example_fb_inverse))
             \<lparr>pwm_bits_m := 1\<rparr>)"
  by (simp add: SetPWMBits_def kBitPlanes_def)

lemma example_run_4:
  "run_mutators inverse_build [Call_Fill 255 255 255, Call_SetPWMBits 1, Call_Clear]
     example_fb_inverse =
     Some (Clear inverse_build ((Fill inverse_build 255 255 255 example_fb_inverse)
             \<lparr>pwm_bits_m := 1\<rparr>))"
  by (simp add: SetPWMBits_def kBitPlanes_def)

lemma example_inverse_MapColor: "MapColor inverse_build example_fb_inverse 255 = 0xF800"
  using MapColor_corrected [where fb = example_fb_inverse and bld = inverse_build and c = 255]
  by (simp add: example_fb_inverse_fields COLOR_OUT_BITS_def inverse_build_flags luminance_255_100)

text \<open>
  C3, as the code has it. \<^verbatim>\<open>SetPWMBits\<close> changes \<^verbatim>\<open>pwm_bits_\<close> and leaves the buffer as it
  is, so the planes that earlier calls wrote under a larger \<^verbatim>\<open>pwm_bits_\<close> keep their bits.
  Take a framebuffer that the constructor built and a sequence of the mutator calls
  \<^verbatim>\<open>Clear\<close>, \<^verbatim>\<open>Fill\<close>, \<^verbatim>\<open>SetPixel\<close>, \<^verbatim>\<open>SetPWMBits\<close> and \<^verbatim>\<open>SetBrightness\<close> with every
  \<^verbatim>\<open>SetBrightness\<close> argument in \<open>[1, 100]\<close>. Let \<open>P\<close> be the largest \<^verbatim>\<open>pwm_bits_\<close> in effect at
  a \<^verbatim>\<open>Fill\<close> call, or at a \<^verbatim>\<open>SetPixel\<close> call at a position inside the display, that comes
  after the last \<^verbatim>\<open>Clear\<close> of the sequence; \<open>P\<close> is 0 if there is no such call, and a
  \<^verbatim>\<open>Clear\<close> is not such a call. Under \<^verbatim>\<open>INVERSE_RGB_DISPLAY_COLORS\<close> the statement is made
  for the sequences in which every \<^verbatim>\<open>Clear\<close> is called under a \<^verbatim>\<open>pwm_bits_\<close> that is at
  least the one at every such \<^verbatim>\<open>Fill\<close> or \<^verbatim>\<open>SetPixel\<close> call since the \<^verbatim>\<open>Clear\<close> before, and
  says nothing of the others. Then in every word of a plane below \<open>11 - P\<close> the color
  fields are all 0, or all 1 under \<^verbatim>\<open>INVERSE_RGB_DISPLAY_COLORS\<close>. In particular this holds
  for the planes below \<open>11 - pwm_bits\<close> whenever \<^verbatim>\<open>pwm_bits_\<close> at observation time is at
  least \<open>P\<close>.
\<close>

theorem low_planes_stay_off:
  assumes "Framebuffer_ctor bld rows columns parallel = Some fb0"
    and "run_mutators bld ms fb0 = Some fb"
    and "written_pwm bld columns (rows * parallel) ms 11 0 = Some P"
    and "0 \<le> d" and "d < double_rows_m fb" and "0 \<le> x" and "x < columns_m fb"
    and "0 \<le> k" and "k < 11 - int P"
  shows "colors_off bld fb d x k"
proof -
  have "written_pwm bld columns (rows * parallel) ms kBitPlanes 0 = Some P"
    using assms(3) by (simp add: kBitPlanes_def)
  moreover have "valid_cell fb d x k"
    using assms(4-9) by (simp add: valid_cell_def kBitPlanes_def)
  moreover have "k < int kBitPlanes - int P"
    using assms(9) by (simp add: kBitPlanes_def)
  ultimately show ?thesis
    by (rule low_planes_off [OF assms(1,2)])
qed

text \<open>
  Two instances. In the default build, \<^verbatim>\<open>SetPWMBits(5)\<close> and \<^verbatim>\<open>SetPixel(0, 0, 255, 0, 0)\<close>
  give \<open>P = 5\<close>, and plane 3 of the word at double row 0, column 0 has its color fields
  all 0. Under \<^verbatim>\<open>INVERSE_RGB_DISPLAY_COLORS\<close>, \<^verbatim>\<open>SetPixel(0, 0, 255, 0, 0)\<close>, \<^verbatim>\<open>Clear\<close> and
  \<^verbatim>\<open>SetPWMBits(1)\<close> give \<open>P = 0\<close>, and plane 0 of that word has its color fields all 1.
\<close>

theorem low_planes_stay_off_witness:
  "Framebuffer_ctor default_build 32 32 1 = Some example_fb
   \<and> run_mutators default_build [Call_SetPWMBits 5, Call_SetPixel 0 0 255 0 0] example_fb =
       Some (SetPixel default_build 0 0 255 0 0 (example_fb\<lparr>pwm_bits_m := 5\<rparr>))
   \<and> written_pwm default_build 32 (32 * 1)
        [Call_SetPWMBits 5, Call_SetPixel 0 0 255 0 0] 11 0 = Some 5
   \<and> (0::int) < double_rows_m (SetPixel default_build 0 0 255 0 0 (example_fb\<lparr>pwm_bits_m := 5\<rparr>))
   \<and> (0::int) < columns_m (SetPixel default_build 0 0 255 0 0 (example_fb\<lparr>pwm_bits_m := 5\<rparr>))
   \<and> colors_off default_build
        (SetPixel default_build 0 0 255 0 0 (example_fb\<lparr>pwm_bits_m := 5\<rparr>)) 0 0 3
   \<and> Framebuffer_ctor inverse_build 32 32 1 = Some example_fb_inverse
   \<and> run_mutators inverse_build [Call_SetPixel 0 0 255 0 0, Call_Clear, Call_SetPWMBits 1]
        example_fb_inverse =
       Some ((Clear inverse_build (SetPixel inverse_build 0 0 255 0 0 example_fb_inverse))
               \<lparr>pwm_bits_m := 1\<rparr>)
   \<and> written_pwm inverse_build 32 (32 * 1)
        [Call_SetPixel 0 0 255 0 0, Call_Clear, Call_SetPWMBits 1] 11 0 = Some 0
   \<and> colors_off inverse_build
        ((Clear inverse_build (SetPixel inverse_build 0 0 255 0 0 example_fb_inverse))
           \<lparr>pwm_bits_m := 1\<rparr>) 0 0 0"
proof -
  let ?fb = "SetPixel default_build 0 0 255 0 0 (example_fb\<lparr>pwm_bits_m := 5\<rparr>)"
  let ?gb = "(Clear inverse_build (SetPixel inverse_build 0 0 255 0 0 example_fb_inverse))
               \<lparr>pwm_bits_m := 1\<rparr>"
  have h: "(0::int) \<le> 0" "(0::int) < double_rows_m ?fb" "(0::int) < columns_m ?fb" "(0::int) \<le> 3"
    by (simp_all add: example_fb_fields)
  have w: "written_pwm default_build 32 (32 * 1)
             [Call_SetPWMBits 5, Call_SetPixel 0 0 255 0 0] 11 0 = Some 5"
    by (simp add: kBitPlanes_def)
  have k: "(3::int) < 11 - int 5"
    by simp
  have 1: "colors_off default_build ?fb 0 0 3"
    by (rule low_planes_stay_off [OF example_fb_eq example_run_1 w h(1,2) h(1,3) h(4) k])
  have g: "(0::int) < double_rows_m ?gb" "(0::int) < columns_m ?gb"
    by (simp_all add: example_fb_inverse_fields)
  have v: "written_pwm inverse_build 32 (32 * 1)
             [Call_SetPixel 0 0 255 0 0, Call_Clear, Call_SetPWMBits 1] 11 0 = Some 0"
    by (simp add: kBitPlanes_def inverse_build_flags)
  have l: "(0::int) < 11 - int 0"
    by simp
  have 2: "colors_off inverse_build ?gb 0 0 0"
    by (rule low_planes_stay_off [OF example_fb_inverse_eq example_run_3 v h(1) g(1) h(1) g(2) h(1) l])
  show ?thesis
    by (intro conjI example_fb_eq example_run_1 w h(2,3) 1 example_fb_inverse_eq example_run_3 v 2)
qed

text \<open>
  C3 as stated fails: on the example framebuffer, \<^verbatim>\<open>SetPixel(0, 0, 255, 0, 0)\<close> under 11
  PWM bits sets \<^verbatim>\<open>p0_r1\<close> in the planes 0 to 10 of the word at double row 0, column 0, and
  \<^verbatim>\<open>SetPWMBits(1)\<close> leaves them set; then \<^verbatim>\<open>pwm_bits_\<close> is 1 and plane 0 is below
  \<open>11 - 1\<close>.
\<close>

theorem lowering_pwm_bits_leaves_planes_set:
  "run_mutators default_build [Call_SetPixel 0 0 255 0 0, Call_SetPWMBits 1] example_fb =
     Some ((SetPixel default_build 0 0 255 0 0 example_fb)\<lparr>pwm_bits_m := 1\<rparr>)
   \<and> pwm_bits_m ((SetPixel default_build 0 0 255 0 0 example_fb)\<lparr>pwm_bits_m := 1\<rparr>) = 1
   \<and> valid_cell ((SetPixel default_build 0 0 255 0 0 example_fb)\<lparr>pwm_bits_m := 1\<rparr>) 0 0 0
   \<and> p0_r1 \<in> cell0 ((SetPixel default_build 0 0 255 0 0 example_fb)\<lparr>pwm_bits_m := 1\<rparr>) 0 0 0
   \<and> \<not> colors_off default_build
         ((SetPixel default_build 0 0 255 0 0 example_fb)\<lparr>pwm_bits_m := 1\<rparr>) 0 0 0"
proof -
  let ?fb = "(SetPixel default_build 0 0 255 0 0 example_fb)\<lparr>pwm_bits_m := 1\<rparr>"
  have v: "valid_cell ?fb 0 0 0"
    by (simp add: valid_cell_def example_fb_fields kBitPlanes_def)
  have c: "cell0 (SetPixel default_build 0 0 255 0 0 example_fb) 0 0 0 = {p0_r1}"
    by (simp add: example_red_cell0 example_cells)
  have f: "INVERSE_RGB_DISPLAY_COLORS default_build = False"
    "ONLY_SINGLE_CHAIN default_build = False" "CM_5_CHAIN_SUPPORT default_build = False"
    by (simp_all add: default_build_def)
  have n: "\<not> colors_off default_build ?fb 0 0 0"
    by (simp add: colors_off_def color_pins0_def c f)
  have p: "pwm_bits_m ?fb = 1"
    by simp
  have m: "p0_r1 \<in> cell0 ?fb 0 0 0"
    by (simp add: c)
  show ?thesis
    by (intro conjI example_run_2 p v m n)
qed

text \<open>
  The sequences that \<^verbatim>\<open>written_pwm\<close> leaves apart. Under \<^verbatim>\<open>INVERSE_RGB_DISPLAY_COLORS\<close>,
  \<^verbatim>\<open>Clear\<close> is \<^verbatim>\<open>Fill(0, 0, 0)\<close> and goes through the planes \<open>[11 - pwm_bits_, 11)\<close> only,
  where the \<^verbatim>\<open>memset\<close> of the other builds covers the \<open>kBitPlanes\<close> planes of the buffer.
  After \<^verbatim>\<open>Fill(255, 255, 255)\<close> under 11 PWM bits, \<^verbatim>\<open>SetPWMBits(1)\<close> and \<^verbatim>\<open>Clear\<close>, the word
  at double row 0, column 0, plane 5 is still the one that the \<^verbatim>\<open>Fill\<close> wrote: its color
  fields are all 0 and not all 1, although \<^verbatim>\<open>Clear\<close> was the last call.
\<close>

lemma Clear_inverse_skips_low_planes:
  "run_mutators inverse_build [Call_Fill 255 255 255, Call_SetPWMBits 1, Call_Clear]
     example_fb_inverse =
     Some (Clear inverse_build ((Fill inverse_build 255 255 255 example_fb_inverse)
             \<lparr>pwm_bits_m := 1\<rparr>))
   \<and> written_pwm inverse_build 32 (32 * 1)
        [Call_Fill 255 255 255, Call_SetPWMBits 1, Call_Clear] 11 0 = None
   \<and> valid_cell (Clear inverse_build ((Fill inverse_build 255 255 255 example_fb_inverse)
                    \<lparr>pwm_bits_m := 1\<rparr>)) 0 0 5
   \<and> cell0 (Clear inverse_build ((Fill inverse_build 255 255 255 example_fb_inverse)
               \<lparr>pwm_bits_m := 1\<rparr>)) 0 0 5 = {}
   \<and> \<not> colors_off inverse_build
         (Clear inverse_build ((Fill inverse_build 255 255 255 example_fb_inverse)
            \<lparr>pwm_bits_m := 1\<rparr>)) 0 0 5"
proof -
  let ?f1 = "Fill inverse_build 255 255 255 example_fb_inverse"
  let ?f2 = "?f1\<lparr>pwm_bits_m := 1\<rparr>"
  let ?f3 = "Clear inverse_build ?f2"
  have wf0: "well_formed inverse_build example_fb_inverse"
    using example_fb_inverse_eq by (rule ctor_well_formed)
  then have wf1: "well_formed inverse_build ?f1"
    by (rule Fill_well_formed)
  then have wf2: "well_formed inverse_build ?f2"
    by (simp add: well_formed_def kBitPlanes_def)
  have v0: "valid_cell example_fb_inverse 0 0 5"
    by (simp add: valid_cell_def example_fb_inverse_fields kBitPlanes_def)
  then have v2: "valid_cell ?f2 0 0 5"
    by (simp add: valid_cell_def)
  then have v3: "valid_cell ?f3 0 0 5"
    by (simp add: valid_cell_def)
  have b: "plane_bits0 inverse_build 0xF800 0xF800 0xF800 5 = {}"
    by (simp add: plane_bits0_def Let_def inverse_build_flags)
  have c1: "cell0 ?f1 0 0 5 = {}"
    by (simp add: Fill_cell0 [OF wf0 v0] example_fb_inverse_fields kBitPlanes_def
        example_inverse_MapColor b)
  have "?f3 = Fill inverse_build 0 0 0 ?f2"
    by (simp only: Clear_def inverse_build_flags if_True)
  moreover have "cell0 (Fill inverse_build 0 0 0 ?f2) 0 0 5 = cell0 ?f2 0 0 5"
    by (subst Fill_cell0 [OF wf2 v2]) (simp add: kBitPlanes_def)
  moreover have "cell0 ?f2 0 0 5 = {}"
    using c1 by simp
  ultimately have c3: "cell0 ?f3 0 0 5 = {}"
    by (simp only:)
  have "\<not> color_pins0 inverse_build \<subseteq> {}"
    by (simp add: color_pins0_def inverse_build_flags)
  then have n: "\<not> colors_off inverse_build ?f3 0 0 5"
    by (simp only: colors_off_def inverse_build_flags if_True if_False c3 simp_thms)
  have w: "written_pwm inverse_build 32 (32 * 1)
        [Call_Fill 255 255 255, Call_SetPWMBits 1, Call_Clear] 11 0 = None"
    by (simp add: kBitPlanes_def inverse_build_flags)
  show ?thesis
    by (intro conjI example_run_4 w v3 c3 n)
qed

end
